theory Spec2Isabelle
  imports Complex_Main "HOL-Library.Word"
begin

section \<open>Data model\<close>

text \<open>
  Go's \<^verbatim>\<open>[]byte\<close> and \<^verbatim>\<open>string\<close> are both byte sequences; they are modelled by
  \<^typ>\<open>string\<close> (a list of 8-bit characters), so the conversion \<^verbatim>\<open>string(contents)\<close>
  is the identity.  A \<^verbatim>\<open>uuid.UUID\<close> is a 128-bit value.
\<close>

type_synonym bytes = string
type_synonym UUID = "128 word"

text \<open>The source's variable \<^verbatim>\<open>id\<close> is written \<open>uid\<close> below (\<open>id\<close> is the identity function
  of HOL).  Package \<^verbatim>\<open>models\<close> is not among the sources; the records \<open>MetaData\<close>, \<open>Object\<close>
  and \<open>Keyword\<close> have the fields that \<^verbatim>\<open>lens.go\<close> and the API server read and write.\<close>

text \<open>Every error value the modelled functions can return, and the two run-time panics
  of \<^verbatim>\<open>Magnify\<close> (indexing an empty slice).\<close>

datatype error =
    AlreadyIndexed            \<comment> \<open>\<^verbatim>\<open>"this object has already been indexed"\<close>\<close>
  | UnsupportedContentType    \<comment> \<open>\<^verbatim>\<open>"unsupported content type for indexing"\<close>\<close>
  | InvalidDataType           \<comment> \<open>\<^verbatim>\<open>"invalid data type"\<close>\<close>
  | KeynameDoesNotExist       \<comment> \<open>\<^verbatim>\<open>"keyname does not exist"\<close>\<close>
  | FailedToFindID string     \<comment> \<open>\<^verbatim>\<open>"failed to find ID for object '%s'"\<close>\<close>
  | InvalidUUID string        \<comment> \<open>\<^verbatim>\<open>"invalid uuid found for '%s' ..."\<close>\<close>
  | NotFound                  \<comment> \<open>the specification's \<^verbatim>\<open>NotFound\<close>\<close>
  | InvalidReference          \<comment> \<open>the specification's \<^verbatim>\<open>InvalidReference\<close>\<close>
  | StoreIOError              \<comment> \<open>a failed datastore operation\<close>
  | KeyNotFound               \<comment> \<open>datastore \<^verbatim>\<open>Get\<close> of an absent key\<close>
  | JSONError                 \<comment> \<open>\<^verbatim>\<open>json.Unmarshal\<close> of bytes that are not JSON\<close>
  | UUIDLength                \<comment> \<open>\<^verbatim>\<open>uuid.FromBytes\<close> of a slice that is not 16 bytes long\<close>
  | Collaborator string       \<comment> \<open>an error handed up from an external collaborator\<close>
  | IndexOutOfRange           \<comment> \<open>panic: \<^verbatim>\<open>parsed[0]\<close> on an empty slice\<close>

record MetaData =
  Summary :: "string list"
  MimeType :: string
  Category :: string

record Object =
  LensID :: UUID
  Name :: string
  MetaData :: MetaData

record Keyword =
  Keyword_Name :: string
  LensIdentifiers :: "UUID list"

record IndexOperationResponse =
  ContentHash :: string
  resp_LensID :: UUID

text \<open>The protobuf response messages built by the API server.\<close>

record pb_Index =
  Id :: string
  Keywords :: "string list"

record pb_Object =
  pb_Name :: string
  pb_MimeType :: string
  pb_Category :: string

record pb_Results =
  Objects :: "pb_Object option list"   \<comment> \<open>\<^verbatim>\<open>[]*pbresp.Object\<close>; \<open>None\<close> is the nil pointer\<close>


section \<open>UUID renderings\<close>

text \<open>\<open>digits b w n\<close> are the \<open>w\<close> least significant base-\<open>b\<close> digits of \<open>n\<close>, most
  significant first; \<open>undigits\<close> reads them back.\<close>

fun digits :: "nat \<Rightarrow> nat \<Rightarrow> nat \<Rightarrow> nat list" where
  "digits b 0 n = []"
| "digits b (Suc w) n = digits b w (n div b) @ [n mod b]"

definition undigits :: "nat \<Rightarrow> nat list \<Rightarrow> nat" where
  "undigits b ds = foldl (\<lambda>a d. a * b + d) 0 ds"

definition hexdigit :: "nat \<Rightarrow> char" where
  "hexdigit d = (''0123456789abcdef'') ! d"

text \<open>\<^verbatim>\<open>id.String()\<close>: the canonical form \<^verbatim>\<open>xxxxxxxx-xxxx-xxxx-xxxx-xxxxxxxxxxxx\<close>.\<close>

definition uuid_String :: "UUID \<Rightarrow> string" where
  "uuid_String u =
     (let h = map hexdigit (digits 16 32 (unat u))
      in take 8 h @ ''-'' @ take 4 (drop 8 h) @ ''-'' @ take 4 (drop 12 h) @ ''-''
         @ take 4 (drop 16 h) @ ''-'' @ drop 20 h)"

text \<open>The 16 bytes of an id, big-endian (\<^verbatim>\<open>id.Bytes()\<close>): the form that \<^verbatim>\<open>uuid.FromBytes\<close>
  reads.\<close>

definition uuid_Bytes :: "UUID \<Rightarrow> bytes" where
  "uuid_Bytes u = map char_of (digits 256 16 (unat u))"

text \<open>\<^verbatim>\<open>uuid.FromBytes\<close> (gofrs/uuid): fails unless the slice is exactly 16 bytes long.\<close>

definition uuid_FromBytes :: "bytes \<Rightarrow> error + UUID" where
  "uuid_FromBytes b =
     (if length b = 16 then Inr (of_nat (undigits 256 (map of_char b))) else Inl UUIDLength)"


section \<open>The datastore behind \<^verbatim>\<open>search.Service\<close>\<close>

text \<open>
  A stored value is a byte slice produced in one of three ways: \<^verbatim>\<open>[]byte(id.String())\<close>,
  \<^verbatim>\<open>json.Marshal\<close> of an \<^verbatim>\<open>Object\<close>, \<^verbatim>\<open>json.Marshal\<close> of a \<^verbatim>\<open>Keyword\<close>.  The exact JSON text
  is left abstract.
\<close>

datatype blob =
    IdText UUID           \<comment> \<open>\<^verbatim>\<open>[]byte(id.String())\<close>\<close>
  | ObjectJSON Object     \<comment> \<open>\<^verbatim>\<open>json.Marshal(&obj)\<close>\<close>
  | KeywordJSON Keyword   \<comment> \<open>\<^verbatim>\<open>json.Marshal(&keyObj)\<close>\<close>

text \<open>
  All records share one key space (\<^verbatim>\<open>Put(v, ...)\<close>, \<^verbatim>\<open>Put(name, ...)\<close>, \<^verbatim>\<open>Put(id.String(), ...)\<close>
  go to the same datastore).  \<open>faults\<close> is the outcome of the coming datastore operations,
  one entry per operation (\<open>True\<close>: the operation fails with an I/O error); when it is used
  up, operations succeed.  \<open>writes\<close> records the successful \<^verbatim>\<open>Put\<close>s in order.
\<close>

record SearchService =
  ds :: "string \<rightharpoonup> blob"
  faults :: "bool list"
  writes :: "(string \<times> blob) list"

text \<open>Modelled from the spec: the outcome of the next datastore operation (\S7: any key-value
  operation may fail with \<^verbatim>\<open>StoreIOError\<close>).\<close>

definition tick :: "SearchService \<Rightarrow> bool \<times> SearchService" where
  "tick s = (case faults s of [] \<Rightarrow> (False, s) | f # fs \<Rightarrow> (f, s\<lparr>faults := fs\<rparr>))"

text \<open>Modelled from the spec: package \<^verbatim>\<open>search\<close> is missing from the sources; \S4.3 gives
  the contract \<^verbatim>\<open>Has(key) -> bool\<close>, which may fail with \<^verbatim>\<open>StoreIOError\<close> (\S7).\<close>

definition ss_Has :: "string \<Rightarrow> SearchService \<Rightarrow> (error + bool) \<times> SearchService" where
  "ss_Has k s = (case tick s of (f, s') \<Rightarrow>
     if f then (Inl StoreIOError, s') else (Inr (ds s' k \<noteq> None), s'))"

text \<open>Modelled from the spec: \<^verbatim>\<open>search.Service.Get\<close> is missing from the sources; \S4.3:
  \<^verbatim>\<open>Get(key) -> bytes, error\<close>.  An absent key is an error.\<close>

definition ss_Get :: "string \<Rightarrow> SearchService \<Rightarrow> (error + blob) \<times> SearchService" where
  "ss_Get k s = (case tick s of (f, s') \<Rightarrow>
     if f then (Inl StoreIOError, s')
     else (case ds s' k of None \<Rightarrow> (Inl KeyNotFound, s') | Some b \<Rightarrow> (Inr b, s')))"

text \<open>Modelled from the spec: \<^verbatim>\<open>search.Service.Put\<close> is missing from the sources; \S4.3:
  \<^verbatim>\<open>Put(key, bytes) -> error\<close>.  A successful \<^verbatim>\<open>Put\<close> replaces what was stored under the key.\<close>

definition ss_Put :: "string \<Rightarrow> blob \<Rightarrow> SearchService \<Rightarrow> (error + unit) \<times> SearchService" where
  "ss_Put k b s = (case tick s of (f, s') \<Rightarrow>
     if f then (Inl StoreIOError, s')
     else (Inr (), s'\<lparr>ds := (ds s')(k \<mapsto> b), writes := writes s' @ [(k, b)]\<rparr>))"


section \<open>JSON encoding of the stored records\<close>

text \<open>\<^verbatim>\<open>json.Marshal\<close> of the two record types.  The source checks the error of every call;
  for these structs (strings, string slices, UUIDs) it is never raised.\<close>

definition Marshal_Object :: "Object \<Rightarrow> error + blob" where
  "Marshal_Object obj = Inr (ObjectJSON obj)"

definition Marshal_Keyword :: "Keyword \<Rightarrow> error + blob" where
  "Marshal_Keyword k = Inr (KeywordJSON k)"

text \<open>
  \<^verbatim>\<open>json.Unmarshal(keywordBytes, &keyword)\<close>.  The canonical text of a UUID is not JSON.
  The JSON of an \<^verbatim>\<open>Object\<close> is a JSON object without a list of identifiers, which decodes
  into a \<^verbatim>\<open>Keyword\<close> whose \<^verbatim>\<open>LensIdentifiers\<close> is left nil.
\<close>

fun Unmarshal_Keyword :: "blob \<Rightarrow> error + Keyword" where
  "Unmarshal_Keyword (KeywordJSON k) = Inr k"
| "Unmarshal_Keyword (IdText u) = Inl JSONError"
| "Unmarshal_Keyword (ObjectJSON obj) = Inr \<lparr>Keyword_Name = Name obj, LensIdentifiers = []\<rparr>"

text \<open>
  What a Go string is once it has gone through \<^verbatim>\<open>json.Marshal\<close> and \<^verbatim>\<open>json.Unmarshal\<close>.  The
  encoder walks the string: a byte below \<^verbatim>\<open>0x80\<close> and a well-formed UTF-8 sequence are written
  so that they are read back as they were; a byte at which \<^verbatim>\<open>utf8.DecodeRuneInString\<close> gives
  \<^verbatim>\<open>RuneError\<close> with width 1 is written as the escape of U+FFFD, which is read back as the three bytes
  \<^verbatim>\<open>EF BF BD\<close>.  \<open>rune_width\<close> is the width of the sequence at the head of a string, \<open>0\<close> when
  no well-formed sequence starts there; \<open>second_byte\<close> is the range that \<^verbatim>\<open>unicode/utf8\<close>
  accepts for the byte after the lead byte \<open>b\<close>.
\<close>

definition continuation :: "char \<Rightarrow> bool" where
  "continuation c = (128 \<le> (of_char c :: nat) \<and> (of_char c :: nat) \<le> 191)"

definition second_byte :: "nat \<Rightarrow> char \<Rightarrow> bool" where
  "second_byte b c =
     ((if b = 224 then 160 else if b = 240 then 144 else 128) \<le> (of_char c :: nat)
      \<and> (of_char c :: nat) \<le> (if b = 237 then 159 else if b = 244 then 143 else 191))"

fun rune_width :: "string \<Rightarrow> nat" where
  "rune_width [] = 0"
| "rune_width (c # cs) =
     (let b = (of_char c :: nat) in
      if b < 128 then 1
      else if 194 \<le> b \<and> b \<le> 223 then
        (case cs of c1 # _ \<Rightarrow> if continuation c1 then 2 else 0 | _ \<Rightarrow> 0)
      else if 224 \<le> b \<and> b \<le> 239 then
        (case cs of
           c1 # c2 # _ \<Rightarrow> if second_byte b c1 \<and> continuation c2 then 3 else 0
         | _ \<Rightarrow> 0)
      else if 240 \<le> b \<and> b \<le> 244 then
        (case cs of
           c1 # c2 # c3 # _ \<Rightarrow>
             if second_byte b c1 \<and> continuation c2 \<and> continuation c3 then 4 else 0
         | _ \<Rightarrow> 0)
      else 0)"

text \<open>\<open>coerce n s\<close>: the string \<open>s\<close> read back, when its first \<open>n\<close> bytes are the rest of a
  well-formed sequence.\<close>

fun coerce :: "nat \<Rightarrow> string \<Rightarrow> string" where
  "coerce n [] = []"
| "coerce (Suc n) (c # cs) = c # coerce n cs"
| "coerce 0 (c # cs) =
     (case rune_width (c # cs) of
        0 \<Rightarrow> [CHR 0xEF, CHR 0xBF, CHR 0xBD] @ coerce 0 cs
      | Suc n \<Rightarrow> c # coerce n cs)"

definition json_string :: "string \<Rightarrow> string" where
  "json_string s = coerce 0 s"

text \<open>
  \<^verbatim>\<open>json.Unmarshal\<close> of stored bytes into an \<^verbatim>\<open>Object\<close>.  From the JSON of an \<^verbatim>\<open>Object\<close> it gives
  the object with every string as it is read back.  The JSON of a \<^verbatim>\<open>Keyword\<close> is a JSON
  object too: it decodes without error, into an \<^verbatim>\<open>Object\<close> whose id and meta data are left
  zero.  The canonical text of a UUID is not JSON.
\<close>

fun Unmarshal_Object :: "blob \<Rightarrow> error + Object" where
  "Unmarshal_Object (ObjectJSON obj) =
     Inr \<lparr>LensID = LensID obj, Name = json_string (Name obj),
          MetaData = \<lparr>Summary = map json_string (Summary (MetaData obj)),
                      MimeType = json_string (MimeType (MetaData obj)),
                      Category = json_string (Category (MetaData obj))\<rparr>\<rparr>"
| "Unmarshal_Object (KeywordJSON k) =
     Inr \<lparr>LensID = 0, Name = json_string (Keyword_Name k),
          MetaData = \<lparr>Summary = [], MimeType = [], Category = []\<rparr>\<rparr>"
| "Unmarshal_Object (IdText u) = Inl JSONError"


section \<open>The API server's \<^verbatim>\<open>Search\<close>\<close>

text \<open>
  \<^verbatim>\<open>objs = make([]*pbresp.Object, len(objects))\<close> allocates \<open>len(objects)\<close> nil pointers;
  the loop then appends one record per object behind them.
\<close>

definition adapt :: "Object \<Rightarrow> pb_Object" where
  "adapt v = \<lparr>pb_Name = Name v, pb_MimeType = MimeType (MetaData v),
              pb_Category = Category (MetaData v)\<rparr>"

definition Search :: "(string list \<Rightarrow> error + Object list) \<Rightarrow> string list \<Rightarrow> error + pb_Results" where
  "Search KeywordSearch keywords =
     (case KeywordSearch keywords of
        Inl err \<Rightarrow> Inl err
      | Inr objects \<Rightarrow>
          Inr \<lparr>Objects = foldl (\<lambda>objs v. objs @ [Some (adapt v)])
                               (replicate (length objects) None) objects\<rparr>)"


section \<open>Collaborators of the service\<close>

text \<open>
  The external services \<^verbatim>\<open>Magnify\<close> and \<^verbatim>\<open>Store\<close> call: the content fetch
  (\<^verbatim>\<open>px.ExtractContents\<close>), \<^verbatim>\<open>http.DetectContentType\<close>, the PDF reader
  (\<^verbatim>\<open>pdf.NewReader\<close>, \<^verbatim>\<open>GetPlainText\<close>, \<^verbatim>\<open>buf.ReadFrom\<close>), the summarization algorithm, the image
  classifier and the IPFS \<^verbatim>\<open>DagPut\<close>.  They are parameters of the model.  So is \<open>json_text\<close>,
  the text that \<^verbatim>\<open>json.Marshal\<close> writes for an \<^verbatim>\<open>Object\<close> or a \<^verbatim>\<open>Keyword\<close>: package \<^verbatim>\<open>models\<close>,
  which fixes the names of the JSON fields, is not among the sources.
\<close>

record Env =
  ExtractContents :: "string \<Rightarrow> error + bytes"
  DetectContentType :: "bytes \<Rightarrow> string"
  pdf_NewReader :: "bytes \<Rightarrow> error + bytes"
  GetPlainText :: "bytes \<Rightarrow> error + bytes"
  ReadFrom :: "bytes \<Rightarrow> error + string"
  summarizer :: "bool \<Rightarrow> string \<Rightarrow> rat \<Rightarrow> string list"
  ClassifyImage :: "bytes \<Rightarrow> error + string"
  DagPut :: "blob \<Rightarrow> error + string"
  json_text :: "blob \<Rightarrow> bytes"

text \<open>Modelled from the spec: package \<^verbatim>\<open>analyzer/text\<close> is missing from the sources.  By \S4.1
  and \S6 the summarizer holds transient state (a working corpus, "the stored text" in the
  words of \<^verbatim>\<open>Magnify\<close>) that \<^verbatim>\<open>Summarize\<close> adds to and \<^verbatim>\<open>Clear()\<close> resets.\<close>

record Analyzer =
  UseChainAlgorithm :: bool
  storedText :: string

text \<open>Modelled from the spec: \<^verbatim>\<open>Analyzer.Summarize\<close> is missing from the sources; \S6:
  \<^verbatim>\<open>Summarize(text, ratio) -> []keyword\<close>.  The text is added to the stored text and the
  summarization algorithm (a parameter) runs on what is stored.\<close>

definition ta_Summarize :: "Env \<Rightarrow> string \<Rightarrow> rat \<Rightarrow> Analyzer \<Rightarrow> string list \<times> Analyzer" where
  "ta_Summarize E text ratio a =
     (let t = storedText a @ text
      in (summarizer E (UseChainAlgorithm a) t ratio, a\<lparr>storedText := t\<rparr>))"

text \<open>Modelled from the spec: \<^verbatim>\<open>Analyzer.Clear\<close> is missing from the sources; \S6:
  "\<^verbatim>\<open>Clear()\<close> resets transient state".\<close>

definition ta_Clear :: "Analyzer \<Rightarrow> Analyzer" where
  "ta_Clear a = a\<lparr>storedText := []\<rparr>"

text \<open>Modelled from the spec: \<^verbatim>\<open>utils.Unique\<close> is missing from the sources; \S4.2:
  "deduplicates the raw keyword list with first-occurrence order preserved".\<close>

primrec Unique :: "string list \<Rightarrow> string list" where
  "Unique [] = []"
| "Unique (x # xs) = x # removeAll x (Unique xs)"

text \<open>\<^verbatim>\<open>strings.FieldsFunc\<close>: the maximal runs of characters that do not satisfy \<open>f\<close>; empty
  fields are dropped.  \<open>cur\<close> is the field being read.\<close>

primrec fields_from :: "(char \<Rightarrow> bool) \<Rightarrow> string \<Rightarrow> string \<Rightarrow> string list" where
  "fields_from f cur [] = (if cur = [] then [] else [cur])"
| "fields_from f cur (c # cs) =
     (if f c then (if cur = [] then fields_from f [] cs else cur # fields_from f [] cs)
      else fields_from f (cur @ [c]) cs)"

definition FieldsFunc :: "string \<Rightarrow> (char \<Rightarrow> bool) \<Rightarrow> string list" where
  "FieldsFunc s f = fields_from f [] s"


section \<open>\<^verbatim>\<open>Service.Magnify\<close>\<close>

record Service =
  ss :: SearchService
  ta :: Analyzer

text \<open>The end of \<^verbatim>\<open>Magnify\<close>: \<^verbatim>\<open>s.ta.Clear()\<close>, then the meta data with the deduplicated
  summary.\<close>

definition Magnify_finish ::
  "string \<Rightarrow> string \<Rightarrow> string \<Rightarrow> string list \<Rightarrow> Service \<Rightarrow> (error + string \<times> MetaData) \<times> Service" where
  "Magnify_finish parsed0 contentType category meta s =
     (Inr (parsed0, \<lparr>Summary = Unique meta, MimeType = contentType, Category = category\<rparr>),
      s\<lparr>ta := ta_Clear (ta s)\<rparr>)"

text \<open>\<^verbatim>\<open>meta = s.ta.Summarize(text, 0.25)\<close>, followed by the end of \<^verbatim>\<open>Magnify\<close>.\<close>

definition Magnify_summarize ::
  "Env \<Rightarrow> string \<Rightarrow> string \<Rightarrow> string \<Rightarrow> string \<Rightarrow> Service \<Rightarrow> (error + string \<times> MetaData) \<times> Service" where
  "Magnify_summarize E parsed0 contentType category text s =
     (case ta_Summarize E text (1 / 4) (ta s) of
        (meta, a) \<Rightarrow> Magnify_finish parsed0 contentType category meta (s\<lparr>ta := a\<rparr>))"

text \<open>\<^verbatim>\<open>case "application/pdf"\<close>.\<close>

definition Magnify_pdf ::
  "Env \<Rightarrow> string \<Rightarrow> string \<Rightarrow> bytes \<Rightarrow> Service \<Rightarrow> (error + string \<times> MetaData) \<times> Service" where
  "Magnify_pdf E parsed0 contentType contents s =
     (case pdf_NewReader E contents of
        Inl err \<Rightarrow> (Inl err, s)
      | Inr reader \<Rightarrow>
          (case GetPlainText E reader of
             Inl err \<Rightarrow> (Inl err, s)
           | Inr b \<Rightarrow>
               (case ReadFrom E b of
                  Inl err \<Rightarrow> (Inl err, s)
                | Inr buf \<Rightarrow> Magnify_summarize E parsed0 contentType ''pdf'' buf s)))"

text \<open>\<^verbatim>\<open>default:\<close> the inner \<^verbatim>\<open>switch parsed2[0]\<close>.\<close>

definition Magnify_default ::
  "Env \<Rightarrow> string \<Rightarrow> string \<Rightarrow> string list \<Rightarrow> bytes \<Rightarrow> Service
     \<Rightarrow> (error + string \<times> MetaData) \<times> Service" where
  "Magnify_default E parsed0 contentType parsed2 contents s =
     (case parsed2 of
        [] \<Rightarrow> (Inl IndexOutOfRange, s)
      | parsed20 # _ \<Rightarrow>
          if parsed20 = ''text'' then
            Magnify_summarize E parsed0 contentType ''document'' contents s
          else if parsed20 = ''image'' then
            (case ClassifyImage E contents of
               Inl err \<Rightarrow> (Inl err, s)
             | Inr keyword \<Rightarrow> Magnify_finish parsed0 contentType ''image'' [keyword] s)
          else (Inl UnsupportedContentType, s))"

text \<open>\<^verbatim>\<open>Magnify\<close> from the fetch of the contents on: everything after the guard.\<close>

definition Magnify_contents :: "Env \<Rightarrow> string \<Rightarrow> Service \<Rightarrow> (error + string \<times> MetaData) \<times> Service" where
  "Magnify_contents E contentHash s =
     (case ExtractContents E contentHash of
        Inl err \<Rightarrow> (Inl err, s)
      | Inr contents \<Rightarrow>
          let contentType = DetectContentType E contents;
              parsed = FieldsFunc contentType (\<lambda>r. r = CHR '';'');
              parsed2 = FieldsFunc contentType (\<lambda>r. r = CHR ''/'')
          in (case parsed of
                [] \<Rightarrow> (Inl IndexOutOfRange, s)
              | parsed0 # _ \<Rightarrow>
                  if parsed0 = ''application/pdf'' then Magnify_pdf E parsed0 contentType contents s
                  else Magnify_default E parsed0 contentType parsed2 contents s))"

definition Magnify :: "Env \<Rightarrow> string \<Rightarrow> Service \<Rightarrow> (error + string \<times> MetaData) \<times> Service" where
  "Magnify E contentHash s =
     (case ss_Has contentHash (ss s) of
        (Inl err, q) \<Rightarrow> (Inl err, s\<lparr>ss := q\<rparr>)
      | (Inr has, q) \<Rightarrow>
          if has then (Inl AlreadyIndexed, s\<lparr>ss := q\<rparr>)
          else Magnify_contents E contentHash (s\<lparr>ss := q\<rparr>))"


section \<open>\<^verbatim>\<open>Service.Store\<close>\<close>

text \<open>One iteration of the loop over \<^verbatim>\<open>meta.Summary\<close>.\<close>

definition Store_keyword :: "UUID \<Rightarrow> string \<Rightarrow> SearchService \<Rightarrow> (error + unit) \<times> SearchService" where
  "Store_keyword uid v s =
     (case ss_Has v s of
        (Inl err, s1) \<Rightarrow> (Inl err, s1)
      | (Inr has, s1) \<Rightarrow>
          if \<not> has then
            (case Marshal_Keyword \<lparr>Keyword_Name = v, LensIdentifiers = [uid]\<rparr> of
               Inl err \<Rightarrow> (Inl err, s1)
             | Inr keyObjMarshaled \<Rightarrow> ss_Put v keyObjMarshaled s1)
          else
            (case ss_Get v s1 of
               (Inl err, s2) \<Rightarrow> (Inl err, s2)
             | (Inr keywordBytes, s2) \<Rightarrow>
                 (case Unmarshal_Keyword keywordBytes of
                    Inl err \<Rightarrow> (Inl err, s2)
                  | Inr keyword \<Rightarrow>
                      if uid \<in> set (LensIdentifiers keyword) then (Inr (), s2)
                      else
                        (case Marshal_Keyword
                                (keyword\<lparr>LensIdentifiers := LensIdentifiers keyword @ [uid]\<rparr>) of
                           Inl err \<Rightarrow> (Inl err, s2)
                         | Inr keywordMarshaled \<Rightarrow> ss_Put v keywordMarshaled s2))))"

fun Store_keywords :: "UUID \<Rightarrow> string list \<Rightarrow> SearchService \<Rightarrow> (error + unit) \<times> SearchService" where
  "Store_keywords uid [] s = (Inr (), s)"
| "Store_keywords uid (v # vs) s =
     (case Store_keyword uid v s of
        (Inl err, s') \<Rightarrow> (Inl err, s')
      | (Inr _, s') \<Rightarrow> Store_keywords uid vs s')"

text \<open>\<open>newV4\<close> is what \<^verbatim>\<open>uuid.NewV4()\<close> returns in this call.  Of the receiver only the
  datastore \<^verbatim>\<open>s.ss\<close> changes.\<close>

definition Store ::
  "Env \<Rightarrow> error + UUID \<Rightarrow> MetaData \<Rightarrow> string \<Rightarrow> SearchService
     \<Rightarrow> (error + IndexOperationResponse) \<times> SearchService" where
  "Store E newV4 meta name s =
     (case newV4 of
        Inl err \<Rightarrow> (Inl err, s)
      | Inr uid \<Rightarrow>
          (case Marshal_Object \<lparr>LensID = uid, Name = name, MetaData = meta\<rparr> of
             Inl err \<Rightarrow> (Inl err, s)
           | Inr marshaled \<Rightarrow>
               (case Store_keywords uid (Summary meta) s of
                  (Inl err, s1) \<Rightarrow> (Inl err, s1)
                | (Inr _, s1) \<Rightarrow>
                    (case ss_Put name (IdText uid) s1 of
                       (Inl err, s2) \<Rightarrow> (Inl err, s2)
                     | (Inr _, s2) \<Rightarrow>
                         (case ss_Put (uuid_String uid) marshaled s2 of
                            (Inl err, s3) \<Rightarrow> (Inl err, s3)
                          | (Inr _, s3) \<Rightarrow>
                              (case DagPut E marshaled of
                                 Inl err \<Rightarrow> (Inl err, s3)
                               | Inr hash \<Rightarrow>
                                   (Inr \<lparr>ContentHash = hash, resp_LensID = uid\<rparr>, s3)))))))"

text \<open>A sequence of \<^verbatim>\<open>Store\<close> calls, each with the outcome of its \<^verbatim>\<open>uuid.NewV4()\<close>.\<close>

fun Stores :: "Env \<Rightarrow> ((error + UUID) \<times> MetaData \<times> string) list \<Rightarrow> SearchService \<Rightarrow> SearchService" where
  "Stores E [] s = s"
| "Stores E ((newV4, meta, name) # cs) s = Stores E cs (snd (Store E newV4 meta name s))"


section \<open>Reindexing\<close>

text \<open>Modelled from the spec: the two-argument \<^verbatim>\<open>Magnify(objectID, reindex)\<close> that \<^verbatim>\<open>Index\<close>
  calls is missing from the sources (\<^verbatim>\<open>lens.go\<close> holds the one-argument \<^verbatim>\<open>Magnify\<close>).  \S4.4
  step 1: without \<^verbatim>\<open>reindex\<close> it is the guard of \<^verbatim>\<open>Magnify\<close>; with \<^verbatim>\<open>reindex\<close> the name record
  is required, "fail with NotFound if absent".  Steps 2 and 3 are those of \<^verbatim>\<open>Magnify\<close>.\<close>

definition Magnify2 :: "Env \<Rightarrow> string \<Rightarrow> bool \<Rightarrow> Service \<Rightarrow> (error + MetaData) \<times> Service" where
  "Magnify2 E objectID reindex s =
     (case (if \<not> reindex then Magnify E objectID s
            else (case ss_Has objectID (ss s) of
                    (Inl err, q) \<Rightarrow> (Inl err, s\<lparr>ss := q\<rparr>)
                  | (Inr has, q) \<Rightarrow>
                      if \<not> has then (Inl NotFound, s\<lparr>ss := q\<rparr>)
                      else Magnify_contents E objectID (s\<lparr>ss := q\<rparr>))) of
        (Inl err, s') \<Rightarrow> (Inl err, s')
      | (Inr (_, metaData), s') \<Rightarrow> (Inr metaData, s'))"

text \<open>\<^verbatim>\<open>Service.SearchByKeyName\<close>: the bytes stored under a key, as they are.\<close>

definition SearchByKeyName :: "string \<Rightarrow> SearchService \<Rightarrow> (error + blob) \<times> SearchService" where
  "SearchByKeyName keyname s =
     (case ss_Has keyname s of
        (Inl err, s1) \<Rightarrow> (Inl err, s1)
      | (Inr has, s1) \<Rightarrow>
          if \<not> has then (Inl KeynameDoesNotExist, s1) else ss_Get keyname s1)"

text \<open>Modelled from the spec: \<^verbatim>\<open>Service.Get\<close>, with which \<^verbatim>\<open>Index\<close> reads the name record, is
  missing from the sources.  \S3: the name record "maps a content identifier to its Object
  id"; \S4.5: the lookup "fails with NotFound if NameIndexRecord[identifier] absent".  It is
  the lookup by key that \<^verbatim>\<open>lens.go\<close> has under the name \<^verbatim>\<open>SearchByKeyName\<close>: the stored bytes
  are handed over unchanged.\<close>

definition lens_Get :: "string \<Rightarrow> SearchService \<Rightarrow> (error + blob) \<times> SearchService" where
  "lens_Get keyname s = SearchByKeyName keyname s"

text \<open>The bytes of a stored value, which \<^verbatim>\<open>Index\<close> passes to \<^verbatim>\<open>uuid.FromBytes\<close>: the canonical
  text of the id for a name record written by \<^verbatim>\<open>Store\<close>, the JSON text for the other
  records.\<close>

definition blob_bytes :: "Env \<Rightarrow> blob \<Rightarrow> bytes" where
  "blob_bytes E b = (case b of IdText u \<Rightarrow> uuid_String u | _ \<Rightarrow> json_text E b)"

text \<open>Modelled from the spec: \S4.3 \<^verbatim>\<open>AddToKeyword\<close>: "Get the KeywordRecord if present (else
  create empty), append objectID only if absent, Put back".\<close>

definition AddToKeyword :: "string \<Rightarrow> UUID \<Rightarrow> SearchService \<Rightarrow> (error + unit) \<times> SearchService" where
  "AddToKeyword k uid s =
     (case ss_Has k s of
        (Inl err, s1) \<Rightarrow> (Inl err, s1)
      | (Inr has, s1) \<Rightarrow>
          (case (if has then
                   (case ss_Get k s1 of
                      (Inl err, s2) \<Rightarrow> (Inl err, s2)
                    | (Inr b, s2) \<Rightarrow>
                        (case Unmarshal_Keyword b of
                           Inl err \<Rightarrow> (Inl err, s2)
                         | Inr r \<Rightarrow> (Inr r, s2)))
                 else (Inr \<lparr>Keyword_Name = k, LensIdentifiers = []\<rparr>, s1)) of
             (Inl err, s2) \<Rightarrow> (Inl err, s2)
           | (Inr r, s2) \<Rightarrow>
               ss_Put k (KeywordJSON
                  (if uid \<in> set (LensIdentifiers r) then r
                   else r\<lparr>LensIdentifiers := LensIdentifiers r @ [uid]\<rparr>)) s2))"

text \<open>Modelled from the spec: \S4.3 \<^verbatim>\<open>RemoveFromKeyword\<close>: "Get, filter out objectID, Put back;
  no-op if record absent or objectID absent".\<close>

definition RemoveFromKeyword :: "string \<Rightarrow> UUID \<Rightarrow> SearchService \<Rightarrow> (error + unit) \<times> SearchService" where
  "RemoveFromKeyword k uid s =
     (case ss_Has k s of
        (Inl err, s1) \<Rightarrow> (Inl err, s1)
      | (Inr has, s1) \<Rightarrow>
          if \<not> has then (Inr (), s1)
          else
            (case ss_Get k s1 of
               (Inl err, s2) \<Rightarrow> (Inl err, s2)
             | (Inr b, s2) \<Rightarrow>
                 (case Unmarshal_Keyword b of
                    Inl err \<Rightarrow> (Inl err, s2)
                  | Inr r \<Rightarrow>
                      if uid \<notin> set (LensIdentifiers r) then (Inr (), s2)
                      else ss_Put k (KeywordJSON
                             (r\<lparr>LensIdentifiers := filter (\<lambda>x. x \<noteq> uid) (LensIdentifiers r)\<rparr>)) s2)))"

text \<open>Modelled from the spec: \S4.3 \<^verbatim>\<open>PutObject\<close>: "stores Object under key obj.id; stores
  NameIndexRecord under key obj.name".\<close>

definition PutObject :: "Object \<Rightarrow> SearchService \<Rightarrow> (error + unit) \<times> SearchService" where
  "PutObject obj s =
     (case ss_Put (uuid_String (LensID obj)) (ObjectJSON obj) s of
        (Inl err, s1) \<Rightarrow> (Inl err, s1)
      | (Inr _, s1) \<Rightarrow> ss_Put (Name obj) (IdText (LensID obj)) s1)"

text \<open>Modelled from the spec: \S4.4 step 4, "for each keyword in removed, RemoveFromKeyword;
  for each keyword in added, AddToKeyword": one of the two operations run over a list of
  keywords, stopping at the first error.\<close>

fun each_keyword ::
  "(string \<Rightarrow> UUID \<Rightarrow> SearchService \<Rightarrow> (error + unit) \<times> SearchService) \<Rightarrow> UUID \<Rightarrow> string list
     \<Rightarrow> SearchService \<Rightarrow> (error + unit) \<times> SearchService" where
  "each_keyword opr uid [] s = (Inr (), s)"
| "each_keyword opr uid (k # ks) s =
     (case opr k uid s of
        (Inl err, s') \<Rightarrow> (Inl err, s')
      | (Inr _, s') \<Rightarrow> each_keyword opr uid ks s')"

text \<open>Modelled from the spec: \<^verbatim>\<open>Service.Update\<close> is missing from the sources.  \S4.4 steps 1
  and 4, reindex: load the existing Object for its prior summary; "reuse existing id; compute
  removed = priorSummary - newSummary and added = newSummary - priorSummary; for each keyword
  in removed, RemoveFromKeyword; for each keyword in added, AddToKeyword; overwrite the
  Object's metadata; PutObject".  A name record whose id has no Object is
  \<^verbatim>\<open>InvalidReference\<close> (\S7).\<close>

definition Update ::
  "MetaData \<Rightarrow> UUID \<Rightarrow> string \<Rightarrow> SearchService \<Rightarrow> (error + IndexOperationResponse) \<times> SearchService" where
  "Update meta uid name s =
     (case ss_Get (uuid_String uid) s of
        (Inl err, s1) \<Rightarrow> (Inl (if err = KeyNotFound then InvalidReference else err), s1)
      | (Inr b, s1) \<Rightarrow>
          (case Unmarshal_Object b of
             Inl err \<Rightarrow> (Inl InvalidReference, s1)
           | Inr old \<Rightarrow>
               let priorSummary = Summary (MetaData old);
                   newSummary = Summary meta;
                   removed = filter (\<lambda>k. k \<notin> set newSummary) priorSummary;
                   added = filter (\<lambda>k. k \<notin> set priorSummary) newSummary
               in (case each_keyword RemoveFromKeyword uid removed s1 of
                     (Inl err, s2) \<Rightarrow> (Inl err, s2)
                   | (Inr _, s2) \<Rightarrow>
                       (case each_keyword AddToKeyword uid added s2 of
                          (Inl err, s3) \<Rightarrow> (Inl err, s3)
                        | (Inr _, s3) \<Rightarrow>
                            (case PutObject \<lparr>LensID = uid, Name = name, MetaData = meta\<rparr> s3 of
                               (Inl err, s4) \<Rightarrow> (Inl err, s4)
                             | (Inr _, s4) \<Rightarrow>
                                 (Inr \<lparr>ContentHash = [], resp_LensID = uid\<rparr>, s4))))))"


section \<open>The API server's \<^verbatim>\<open>Index\<close>\<close>

record pbreq_Index =
  req_Type :: string
  req_Identifier :: string
  req_Reindex :: bool

definition Index ::
  "Env \<Rightarrow> error + UUID \<Rightarrow> pbreq_Index \<Rightarrow> Service \<Rightarrow> (error + pb_Index) \<times> Service" where
  "Index E newV4 req s =
     (if req_Type req \<noteq> ''ipld'' then (Inl InvalidDataType, s)
      else
        let objectID = req_Identifier req; reindex = req_Reindex req
        in (case Magnify2 E objectID reindex s of
              (Inl err, s1) \<Rightarrow> (Inl err, s1)
            | (Inr metaData, s1) \<Rightarrow>
                if \<not> reindex then
                  (case Store E newV4 metaData objectID (ss s1) of
                     (Inl err, q) \<Rightarrow> (Inl err, s1\<lparr>ss := q\<rparr>)
                   | (Inr resp, q) \<Rightarrow>
                       (Inr \<lparr>Id = uuid_String (resp_LensID resp), Keywords = Summary metaData\<rparr>,
                        s1\<lparr>ss := q\<rparr>))
                else
                  (case lens_Get objectID (ss s1) of
                     (Inl err, q) \<Rightarrow> (Inl (FailedToFindID objectID), s1\<lparr>ss := q\<rparr>)
                   | (Inr b, q) \<Rightarrow>
                       (case uuid_FromBytes (blob_bytes E b) of
                          Inl err \<Rightarrow> (Inl (InvalidUUID objectID), s1\<lparr>ss := q\<rparr>)
                        | Inr uid \<Rightarrow>
                            (case Update metaData uid objectID q of
                               (Inl err, q') \<Rightarrow> (Inl err, s1\<lparr>ss := q'\<rparr>)
                             | (Inr resp, q') \<Rightarrow>
                                 (Inr \<lparr>Id = uuid_String (resp_LensID resp),
                                       Keywords = Summary metaData\<rparr>,
                                  s1\<lparr>ss := q'\<rparr>))))))"


section \<open>Notions used in the statements\<close>

text \<open>The identifiers that the keyword record stored under \<open>k\<close> carries (none when there is
  no record under \<open>k\<close>, or when what is stored there does not decode as a keyword).\<close>

definition objectIDs :: "SearchService \<Rightarrow> string \<Rightarrow> UUID list" where
  "objectIDs s k =
     (case ds s k of
        None \<Rightarrow> []
      | Some b \<Rightarrow> (case Unmarshal_Keyword b of Inl _ \<Rightarrow> [] | Inr r \<Rightarrow> LensIdentifiers r))"

text \<open>I4: no keyword record lists an identifier twice.\<close>

definition I4 :: "SearchService \<Rightarrow> bool" where
  "I4 s = (\<forall>k r. ds s k = Some (KeywordJSON r) \<longrightarrow> distinct (LensIdentifiers r))"


text \<open>
  What the claims say about a detected content type, in their own words.  \<open>media_type\<close> is
  the type without its parameters (\<^verbatim>\<open>text/plain; charset=utf-8\<close> has media type
  \<^verbatim>\<open>text/plain\<close>); \<^verbatim>\<open>text/*\<close> and \<^verbatim>\<open>image/*\<close> are the types that start with \<^verbatim>\<open>text/\<close> and
  \<^verbatim>\<open>image/\<close>.  \<^verbatim>\<open>http.DetectContentType\<close> "always returns a valid MIME type": a string
  that has a \<^verbatim>\<open>/\<close> and starts with neither \<^verbatim>\<open>/\<close> nor \<^verbatim>\<open>;\<close>.
\<close>

definition media_type :: "string \<Rightarrow> string" where
  "media_type ct = takeWhile (\<lambda>c. c \<noteq> CHR '';'') ct"

definition valid_mime :: "string \<Rightarrow> bool" where
  "valid_mime ct = (ct \<noteq> [] \<and> hd ct \<noteq> CHR '';'' \<and> hd ct \<noteq> CHR ''/'' \<and> CHR ''/'' \<in> set ct)"

definition is_pdf :: "string \<Rightarrow> bool" where
  "is_pdf ct = (media_type ct = ''application/pdf'')"

definition is_text :: "string \<Rightarrow> bool" where
  "is_text ct = (take 5 ct = ''text/'')"

definition is_image :: "string \<Rightarrow> bool" where
  "is_image ct = (take 6 ct = ''image/'')"


section \<open>A small instance\<close>

text \<open>
  A concrete environment and an empty service, on which the statements below are run.  The
  fetch knows four identifiers; the content type is sniffed from the first bytes; the
  summarizer returns the words of the text; the image classifier always answers
  \<^verbatim>\<open>lighthouse\<close>.  No statement below reads the JSON text of a record.
\<close>

definition demo_Env :: Env where
  "demo_Env =
     \<lparr>ExtractContents = (\<lambda>h.
          if h = ''QmPdf'' then Inr ''%PDF sea shore''
          else if h = ''QmText'' then Inr ''a b''
          else if h = ''QmImg'' then Inr ''PNG1''
          else if h = ''QmBin'' then Inr ''ELF''
          else Inl (Collaborator ''no such object'')),
      DetectContentType = (\<lambda>c.
          if take 4 c = ''%PDF'' then ''application/pdf''
          else if take 3 c = ''PNG'' then ''image/png''
          else if take 3 c = ''ELF'' then ''application/octet-stream''
          else ''text/plain; charset=utf-8''),
      pdf_NewReader = (\<lambda>c. Inr c),
      GetPlainText = (\<lambda>r. Inr (drop 5 r)),
      ReadFrom = (\<lambda>b. Inr b),
      summarizer = (\<lambda>chain text ratio. FieldsFunc text (\<lambda>c. c = CHR '' '')),
      ClassifyImage = (\<lambda>c. Inr ''lighthouse''),
      DagPut = (\<lambda>b. Inr ''bafy''),
      json_text = (\<lambda>b. ''{}'')\<rparr>"

definition demo_ss :: SearchService where
  "demo_ss = \<lparr>ds = Map.empty, faults = [], writes = []\<rparr>"

definition demo_Service :: Service where
  "demo_Service = \<lparr>ss = demo_ss, ta = \<lparr>UseChainAlgorithm = False, storedText = []\<rparr>\<rparr>"

definition demo_sea :: MetaData where
  "demo_sea = \<lparr>Summary = [''ocean'', ''waves''], MimeType = ''text/plain; charset=utf-8'',
               Category = ''document''\<rparr>"

definition demo_pic :: MetaData where
  "demo_pic = \<lparr>Summary = [''ocean''], MimeType = ''image/png'', Category = ''image''\<rparr>"




definition demo_req :: pbreq_Index where
  "demo_req = \<lparr>req_Type = ''ipld'', req_Identifier = ''QmText'', req_Reindex = False\<rparr>"



text \<open>A datastore whose third operation fails.\<close>

definition demo_faulty :: SearchService where
  "demo_faulty = \<lparr>ds = Map.empty, faults = [False, False, True], writes = []\<rparr>"


section \<open>Facts about the UUID renderings\<close>

lemma length_digits: "length (digits b w n) = w"
  by (induction w arbitrary: n) simp_all

lemma undigits_snoc: "undigits b (xs @ [d]) = undigits b xs * b + d"
  by (simp add: undigits_def)

lemma undigits_digits: "undigits b (digits b w n) = n mod b ^ w"
proof (induction w arbitrary: n)
  case 0
  then show ?case by (simp add: undigits_def)
next
  case (Suc w)
  have "undigits b (digits b (Suc w) n) = (n div b) mod b ^ w * b + n mod b"
    by (simp add: undigits_snoc Suc)
  also have "\<dots> = n mod b ^ Suc w"
    by (simp add: mod_mult2_eq mult.commute)
  finally show ?case .
qed

lemma digits_less: "0 < b \<Longrightarrow> d \<in> set (digits b w n) \<Longrightarrow> d < b"
  by (induction w arbitrary: n) auto

lemma digits_numeral:
  "digits b (numeral k) n = digits b (pred_numeral k) (n div b) @ [n mod b]"
  by (simp add: numeral_eq_Suc)

lemma map_of_char_char_of:
  "\<forall>d \<in> set xs. d < 256 \<Longrightarrow> map of_char (map char_of xs) = (xs :: nat list)"
  by (induction xs) simp_all

lemma unat_uuid_less: "unat (u :: UUID) < 256 ^ 16"
proof -
  have "unat u < 2 ^ LENGTH(128)" by (rule unsigned_less)
  also have "(2::nat) ^ LENGTH(128) = (2 ^ 8) ^ 16" unfolding power_mult [symmetric] by simp
  finally show ?thesis by simp
qed

text \<open>\<^verbatim>\<open>uuid.FromBytes\<close> reads back what \<^verbatim>\<open>Bytes()\<close> gives, and rejects the canonical text
  (36 bytes).\<close>

lemma uuid_FromBytes_Bytes: "uuid_FromBytes (uuid_Bytes u) = Inr u"
proof -
  have "map of_char (uuid_Bytes u) = digits 256 16 (unat u)"
    unfolding uuid_Bytes_def by (rule map_of_char_char_of) (auto dest: digits_less [rotated])
  then have "undigits 256 (map of_char (uuid_Bytes u)) = unat u"
    using unat_uuid_less [of u] by (simp add: undigits_digits)
  moreover have "length (uuid_Bytes u) = 16"
    by (simp add: uuid_Bytes_def length_digits)
  ultimately show ?thesis
    by (simp add: uuid_FromBytes_def)
qed

lemma length_uuid_String: "length (uuid_String u) = 36"
  by (simp add: uuid_String_def Let_def length_digits)

lemma uuid_FromBytes_String: "uuid_FromBytes (uuid_String u) = Inl UUIDLength"
  by (simp add: uuid_FromBytes_def length_uuid_String)

lemma inj_on_hexdigit: "inj_on hexdigit {..<16}"
  unfolding hexdigit_def by (rule inj_on_nth) simp_all

lemma pieces_eq:
  assumes "take 8 h @ a # take 4 (drop 8 h) @ a # take 4 (drop 12 h) @ a
             # take 4 (drop 16 h) @ a # drop 20 h
         = take 8 k @ a # take 4 (drop 8 k) @ a # take 4 (drop 12 k) @ a
             # take 4 (drop 16 k) @ a # drop 20 k"
    and "length h = 32" and "length k = 32"
  shows "h = k"
proof -
  from assms have 1: "take 8 h = take 8 k"
    and r1: "take 4 (drop 8 h) @ a # take 4 (drop 12 h) @ a # take 4 (drop 16 h) @ a # drop 20 h
           = take 4 (drop 8 k) @ a # take 4 (drop 12 k) @ a # take 4 (drop 16 k) @ a # drop 20 k"
    by simp_all
  from r1 assms(2,3) have 2: "take 4 (drop 8 h) = take 4 (drop 8 k)"
    and r2: "take 4 (drop 12 h) @ a # take 4 (drop 16 h) @ a # drop 20 h
           = take 4 (drop 12 k) @ a # take 4 (drop 16 k) @ a # drop 20 k"
    by simp_all
  from r2 assms(2,3) have 3: "take 4 (drop 12 h) = take 4 (drop 12 k)"
    and r3: "take 4 (drop 16 h) @ a # drop 20 h = take 4 (drop 16 k) @ a # drop 20 k"
    by simp_all
  from r3 assms(2,3) have 4: "take 4 (drop 16 h) = take 4 (drop 16 k)"
    and 5: "drop 20 h = drop 20 k"
    by simp_all
  have split: "xs = take 8 xs @ take 4 (drop 8 xs) @ take 4 (drop 12 xs)
                 @ take 4 (drop 16 xs) @ drop 20 xs" for xs :: "'a list"
  proof -
    have "take 4 (drop 16 xs) @ drop 20 xs = drop 16 xs"
      using append_take_drop_id [of 4 "drop 16 xs"] by simp
    moreover have "take 4 (drop 12 xs) @ drop 16 xs = drop 12 xs"
      using append_take_drop_id [of 4 "drop 12 xs"] by simp
    moreover have "take 4 (drop 8 xs) @ drop 12 xs = drop 8 xs"
      using append_take_drop_id [of 4 "drop 8 xs"] by simp
    ultimately show ?thesis by simp
  qed
  show ?thesis
    using split [of h] split [of k] 1 2 3 4 5 by simp
qed

lemma uuid_String_inj: "uuid_String u = uuid_String v \<Longrightarrow> u = v"
proof -
  assume eq: "uuid_String u = uuid_String v"
  let ?d = "\<lambda>w::UUID. digits 16 32 (unat w)"
  have "map hexdigit (?d u) = map hexdigit (?d v)"
    by (rule pieces_eq [where a = "CHR ''-''"])
       (use eq in \<open>simp_all add: uuid_String_def Let_def length_digits\<close>)
  moreover have "set (?d u) \<subseteq> {..<16}" "set (?d v) \<subseteq> {..<16}"
    by (auto dest: digits_less [rotated])
  ultimately have "?d u = ?d v"
    using inj_on_hexdigit
    by (meson inj_on_map_eq_map inj_on_subset Un_least)
  then have "undigits 16 (?d u) = undigits 16 (?d v)" by simp
  then have "unat u mod 16 ^ 32 = unat v mod 16 ^ 32"
    by (simp only: undigits_digits)
  moreover have "unat w < 16 ^ 32" for w :: UUID
    using unat_uuid_less [of w] by simp
  ultimately have "unat u = unat v" by simp
  then show "u = v" by (simp add: word_unat_eq_iff)
qed

lemma uuid_String_eq_iff [simp]: "uuid_String u = uuid_String v \<longleftrightarrow> u = v"
  using uuid_String_inj by blast


section \<open>Facts about the datastore operations and \<^verbatim>\<open>Magnify\<close>\<close>

lemma ds_tick [simp]: "ds (snd (tick s)) = ds s"
  by (simp add: tick_def split: list.splits)

lemma writes_tick [simp]: "writes (snd (tick s)) = writes s"
  by (simp add: tick_def split: list.splits)

lemma ss_Has_eq:
  "ss_Has k s = (if fst (tick s) then Inl StoreIOError else Inr (ds s k \<noteq> None), snd (tick s))"
  using ds_tick [of s] by (cases "tick s") (simp add: ss_Has_def)

lemma ss_Get_eq:
  "ss_Get k s = (if fst (tick s) then Inl StoreIOError
                 else (case ds s k of None \<Rightarrow> Inl KeyNotFound | Some b \<Rightarrow> Inr b), snd (tick s))"
  using ds_tick [of s] by (cases "tick s") (simp add: ss_Get_def split: option.split)

lemma ss_Put_eq:
  "ss_Put k b s = (if fst (tick s) then (Inl StoreIOError, snd (tick s))
                   else (Inr (), (snd (tick s))\<lparr>ds := (ds s)(k \<mapsto> b), writes := writes s @ [(k, b)]\<rparr>))"
  using ds_tick [of s] writes_tick [of s] by (cases "tick s") (simp add: ss_Put_def)

lemma fields_from_cur:
  "cur \<noteq> [] \<Longrightarrow>
   fields_from f cur s =
     (cur @ takeWhile (\<lambda>c. \<not> f c) s) # fields_from f [] (dropWhile (\<lambda>c. \<not> f c) s)"
  by (induction s arbitrary: cur) simp_all

lemma FieldsFunc_first:
  assumes "s \<noteq> []" and "\<not> f (hd s)"
  shows "FieldsFunc s f = takeWhile (\<lambda>c. \<not> f c) s # fields_from f [] (dropWhile (\<lambda>c. \<not> f c) s)"
proof (cases s)
  case Nil
  with assms show ?thesis by simp
next
  case (Cons c cs)
  with assms have "\<not> f c" by simp
  then show ?thesis
    using fields_from_cur [of "[c]" f cs] by (simp add: FieldsFunc_def Cons)
qed



lemma Magnify_summarize_eq:
  "Magnify_summarize E parsed0 contentType category text s =
     (Inr (parsed0, \<lparr>Summary = Unique (fst (ta_Summarize E text (1 / 4) (ta s))),
                     MimeType = contentType, Category = category\<rparr>),
      s\<lparr>ta := ta_Clear (snd (ta_Summarize E text (1 / 4) (ta s)))\<rparr>)"
  by (simp add: Magnify_summarize_def Magnify_finish_def split: prod.split)




lemma Magnify_pdf_ss: "ss (snd (Magnify_pdf E p ct c s)) = ss s"
  by (simp add: Magnify_pdf_def Magnify_summarize_eq split: sum.split)

lemma Magnify_default_ss: "ss (snd (Magnify_default E p ct p2 c s)) = ss s"
  by (simp add: Magnify_default_def Magnify_summarize_eq Magnify_finish_def
        split: sum.split list.split)

lemma Magnify_contents_ss: "ss (snd (Magnify_contents E h s)) = ss s"
  by (simp add: Magnify_contents_def Let_def Magnify_pdf_ss Magnify_default_ss
        split: sum.split list.split)

lemma Magnify_ss: "ss (snd (Magnify E h s)) = snd (tick (ss s))"
  by (simp add: Magnify_def ss_Has_eq Magnify_contents_ss)







lemma Magnify_indexed:
  "ds (ss s) h \<noteq> None \<Longrightarrow> \<not> fst (tick (ss s)) \<Longrightarrow>
   Magnify E h s = (Inl AlreadyIndexed, s\<lparr>ss := snd (tick (ss s))\<rparr>)"
  by (simp add: Magnify_def ss_Has_eq)

lemma Magnify_fresh:
  "ds (ss s) h = None \<Longrightarrow> \<not> fst (tick (ss s)) \<Longrightarrow>
   Magnify E h s = Magnify_contents E h (s\<lparr>ss := snd (tick (ss s))\<rparr>)"
  by (simp add: Magnify_def ss_Has_eq)

lemma parsed_first:
  "valid_mime ct \<Longrightarrow> \<exists>rest. FieldsFunc ct (\<lambda>r. r = CHR '';'') = media_type ct # rest"
  using FieldsFunc_first [of ct "\<lambda>r. r = CHR '';''"]
  by (simp add: valid_mime_def media_type_def)

lemma parsed2_first:
  "valid_mime ct \<Longrightarrow>
   \<exists>rest. FieldsFunc ct (\<lambda>r. r = CHR ''/'') = takeWhile (\<lambda>c. c \<noteq> CHR ''/'') ct # rest"
  using FieldsFunc_first [of ct "\<lambda>r. r = CHR ''/''"]
  by (simp add: valid_mime_def)

lemma top_level_prefix:
  assumes "CHR ''/'' \<in> set ct"
  shows "takeWhile (\<lambda>c. c \<noteq> CHR ''/'') ct = p \<longleftrightarrow> (CHR ''/'' \<notin> set p \<and> take (Suc (length p)) ct = p @ ''/'')"
proof
  assume l: "takeWhile (\<lambda>c. c \<noteq> CHR ''/'') ct = p"
  let ?d = "dropWhile (\<lambda>c. c \<noteq> CHR ''/'') ct"
  from assms have "?d \<noteq> []" by auto
  moreover from this have "hd ?d = CHR ''/''" using hd_dropWhile [of "\<lambda>c. c \<noteq> CHR ''/''" ct] by simp
  ultimately obtain r where d: "?d = CHR ''/'' # r" by (cases ?d) auto
  have "ct = p @ CHR ''/'' # r"
    using takeWhile_dropWhile_id [of "\<lambda>c. c \<noteq> CHR ''/''" ct] l d by simp
  moreover have "CHR ''/'' \<notin> set p"
    using l set_takeWhileD [of "CHR ''/''" "\<lambda>c. c \<noteq> CHR ''/''" ct] by auto
  ultimately show "CHR ''/'' \<notin> set p \<and> take (Suc (length p)) ct = p @ ''/''" by simp
next
  assume r: "CHR ''/'' \<notin> set p \<and> take (Suc (length p)) ct = p @ ''/''"
  have "ct = (p @ ''/'') @ drop (Suc (length p)) ct"
    using append_take_drop_id [of "Suc (length p)" ct] r by simp
  then obtain t where "ct = p @ CHR ''/'' # t" by simp
  moreover have "\<And>x. x \<in> set p \<Longrightarrow> x \<noteq> CHR ''/''" using r by auto
  ultimately show "takeWhile (\<lambda>c. c \<noteq> CHR ''/'') ct = p"
    by simp
qed

lemma top_level_text:
  "valid_mime ct \<Longrightarrow> takeWhile (\<lambda>c. c \<noteq> CHR ''/'') ct = ''text'' \<longleftrightarrow> is_text ct"
  using top_level_prefix [of ct "''text''"] by (simp add: valid_mime_def is_text_def eval_nat_numeral)

lemma top_level_image:
  "valid_mime ct \<Longrightarrow> takeWhile (\<lambda>c. c \<noteq> CHR ''/'') ct = ''image'' \<longleftrightarrow> is_image ct"
  using top_level_prefix [of ct "''image''"] by (simp add: valid_mime_def is_image_def eval_nat_numeral)

lemma is_text_not_pdf: "is_text ct \<Longrightarrow> \<not> is_pdf ct"
  by (cases ct) (auto simp: is_text_def is_pdf_def media_type_def)

lemma is_image_not_pdf: "is_image ct \<Longrightarrow> \<not> is_pdf ct"
  by (cases ct) (auto simp: is_image_def is_pdf_def media_type_def)

lemma is_image_not_text: "is_image ct \<Longrightarrow> \<not> is_text ct"
  by (cases ct) (auto simp: is_text_def is_image_def)

lemma Magnify_contents_dispatch:
  assumes "ExtractContents E h = Inr contents" and "valid_mime (DetectContentType E contents)"
  shows "Magnify_contents E h s =
    (let ct = DetectContentType E contents in
     if is_pdf ct then Magnify_pdf E (media_type ct) ct contents s
     else if is_text ct then Magnify_summarize E (media_type ct) ct ''document'' contents s
     else if is_image ct then
       (case ClassifyImage E contents of
          Inl err \<Rightarrow> (Inl err, s)
        | Inr keyword \<Rightarrow> Magnify_finish (media_type ct) ct ''image'' [keyword] s)
     else (Inl UnsupportedContentType, s))"
proof -
  let ?ct = "DetectContentType E contents"
  obtain r1 where p: "FieldsFunc ?ct (\<lambda>r. r = CHR '';'') = media_type ?ct # r1"
    using parsed_first [OF assms(2)] by blast
  obtain r2 where p2: "FieldsFunc ?ct (\<lambda>r. r = CHR ''/'') = takeWhile (\<lambda>c. c \<noteq> CHR ''/'') ?ct # r2"
    using parsed2_first [OF assms(2)] by blast
  show ?thesis
    using top_level_text [OF assms(2)] top_level_image [OF assms(2)]
    by (simp add: Magnify_contents_def assms(1) Let_def p p2 Magnify_default_def is_pdf_def)
qed



section \<open>Facts about \<^verbatim>\<open>Store\<close>\<close>

lemma objectIDs_tick [simp]: "objectIDs (snd (tick s)) k = objectIDs s k"
  by (simp add: objectIDs_def)

lemma I4_distinct: "I4 s \<Longrightarrow> distinct (objectIDs s k)"
  by (cases "ds s k"; cases "the (ds s k)") (auto simp: I4_def objectIDs_def)

lemma I4_cong: "ds s' = ds s \<Longrightarrow> I4 s' = I4 s"
  by (simp add: I4_def)

lemma Store_keyword_cases:
  assumes "Store_keyword uid v s = (r, s')"
  shows "(ds s' = ds s \<and> writes s' = writes s \<and> (r = Inr () \<longrightarrow> uid \<in> set (objectIDs s v)))
       \<or> (r = Inr () \<and> uid \<notin> set (objectIDs s v)
          \<and> (\<exists>kw. ds s' = (ds s)(v \<mapsto> KeywordJSON kw)
                 \<and> writes s' = writes s @ [(v, KeywordJSON kw)]
                 \<and> LensIdentifiers kw = objectIDs s v @ [uid]))"
  using assms
  by (auto simp: Store_keyword_def ss_Has_eq ss_Get_eq ss_Put_eq Marshal_Keyword_def objectIDs_def
           split: if_splits option.splits sum.splits)

lemma objectIDs_eq: "ds s' = ds s \<Longrightarrow> objectIDs s' k = objectIDs s k"
  by (simp add: objectIDs_def)

lemma objectIDs_upd:
  "ds s' = (ds s)(v \<mapsto> KeywordJSON kw) \<Longrightarrow>
   objectIDs s' k = (if k = v then LensIdentifiers kw else objectIDs s k)"
  by (simp add: objectIDs_def)

lemma Store_keyword_ds_other:
  "k \<noteq> v \<Longrightarrow> ds (snd (Store_keyword uid v s)) k = ds s k"
  using Store_keyword_cases [OF surjective_pairing, of uid v s]
  by auto

lemma Store_keyword_fail:
  "fst (Store_keyword uid v s) = Inl e \<Longrightarrow>
   ds (snd (Store_keyword uid v s)) = ds s \<and> writes (snd (Store_keyword uid v s)) = writes s"
  using Store_keyword_cases [OF surjective_pairing, of uid v s]
  by auto

lemma Store_keyword_objectIDs:
  assumes "fst (Store_keyword uid v s) = Inr ()"
  shows "objectIDs (snd (Store_keyword uid v s)) k =
           (if k = v \<and> uid \<notin> set (objectIDs s k) then objectIDs s k @ [uid] else objectIDs s k)"
proof -
  let ?s' = "snd (Store_keyword uid v s)"
  from Store_keyword_cases [OF surjective_pairing, of uid v s] assms
  consider "ds ?s' = ds s" "uid \<in> set (objectIDs s v)"
    | kw where "uid \<notin> set (objectIDs s v)" "ds ?s' = (ds s)(v \<mapsto> KeywordJSON kw)"
        "LensIdentifiers kw = objectIDs s v @ [uid]"
    by auto
  then show ?thesis
  proof cases
    case 1
    then show ?thesis using objectIDs_eq [of ?s' s k] by auto
  next
    case 2
    then show ?thesis using objectIDs_upd [of ?s' s v kw k] by auto
  qed
qed

lemma Store_keyword_mono:
  assumes "x \<in> set (objectIDs s k)"
  shows "x \<in> set (objectIDs (snd (Store_keyword uid v s)) k)"
proof -
  let ?s' = "snd (Store_keyword uid v s)"
  from Store_keyword_cases [OF surjective_pairing, of uid v s]
  consider "ds ?s' = ds s"
    | kw where "ds ?s' = (ds s)(v \<mapsto> KeywordJSON kw)"
        "LensIdentifiers kw = objectIDs s v @ [uid]"
    by auto
  then show ?thesis
  proof cases
    case 1
    then show ?thesis using objectIDs_eq [of ?s' s k] assms by simp
  next
    case 2
    then show ?thesis using objectIDs_upd [of ?s' s v kw k] assms by auto
  qed
qed

lemma Store_keyword_I4:
  assumes "I4 s"
  shows "I4 (snd (Store_keyword uid v s))"
proof -
  let ?s' = "snd (Store_keyword uid v s)"
  from Store_keyword_cases [OF surjective_pairing, of uid v s]
  consider "ds ?s' = ds s"
    | kw where "uid \<notin> set (objectIDs s v)" "ds ?s' = (ds s)(v \<mapsto> KeywordJSON kw)"
        "LensIdentifiers kw = objectIDs s v @ [uid]"
    by auto
  then show ?thesis
  proof cases
    case 1
    with assms show ?thesis by (simp add: I4_def)
  next
    case 2
    with assms I4_distinct [OF assms, of v] show ?thesis by (auto simp: I4_def)
  qed
qed

lemma Store_keyword_writes:
  "\<exists>w. writes (snd (Store_keyword uid v s)) = writes s @ w
       \<and> (\<forall>(k, b) \<in> set w. k = v \<and> (\<exists>kw. b = KeywordJSON kw))"
  using Store_keyword_cases [OF surjective_pairing, of uid v s]
  by auto

lemma Store_keywords_ds_other:
  "k \<notin> set vs \<Longrightarrow> ds (snd (Store_keywords uid vs s)) k = ds s k"
proof (induction vs arbitrary: s)
  case Nil
  then show ?case by simp
next
  case (Cons v vs)
  then show ?case
    using Store_keyword_ds_other [of k v uid s]
    by (cases "Store_keyword uid v s") (auto split: sum.split)
qed

lemma Store_keywords_I4: "I4 s \<Longrightarrow> I4 (snd (Store_keywords uid vs s))"
proof (induction vs arbitrary: s)
  case Nil
  then show ?case by simp
next
  case (Cons v vs)
  then show ?case
    using Store_keyword_I4 [of s uid v]
    by (cases "Store_keyword uid v s") (auto split: sum.split)
qed

lemma Store_keywords_mono:
  "x \<in> set (objectIDs s k) \<Longrightarrow> x \<in> set (objectIDs (snd (Store_keywords uid vs s)) k)"
proof (induction vs arbitrary: s)
  case Nil
  then show ?case by simp
next
  case (Cons v vs)
  then show ?case
    using Store_keyword_mono [of x s k uid v]
    by (cases "Store_keyword uid v s") (auto split: sum.split)
qed

lemma Store_keywords_writes:
  "\<exists>w. writes (snd (Store_keywords uid vs s)) = writes s @ w
       \<and> (\<forall>(k, b) \<in> set w. k \<in> set vs \<and> (\<exists>kw. b = KeywordJSON kw))"
proof (induction vs arbitrary: s)
  case Nil
  then show ?case by simp
next
  case (Cons v vs)
  obtain r s1 where sk: "Store_keyword uid v s = (r, s1)" by (cases "Store_keyword uid v s")
  obtain w1 where w1: "writes s1 = writes s @ w1" "\<forall>(k, b) \<in> set w1. k = v \<and> (\<exists>kw. b = KeywordJSON kw)"
    using Store_keyword_writes [of uid v s] sk by auto
  show ?case
  proof (cases r)
    case (Inl e)
    with sk w1 show ?thesis by fastforce
  next
    case (Inr u)
    obtain w2 where w2: "writes (snd (Store_keywords uid vs s1)) = writes s1 @ w2"
      "\<forall>(k, b) \<in> set w2. k \<in> set vs \<and> (\<exists>kw. b = KeywordJSON kw)"
      using Cons.IH [of s1] by auto
    have "writes (snd (Store_keywords uid (v # vs) s)) = writes s @ (w1 @ w2)"
      using sk Inr w1 w2 by simp
    moreover have "\<forall>(k, b) \<in> set (w1 @ w2). k \<in> set (v # vs) \<and> (\<exists>kw. b = KeywordJSON kw)"
      using w1 w2 by fastforce
    ultimately show ?thesis by blast
  qed
qed

lemma Store_keywords_objectIDs:
  "fst (Store_keywords uid vs s) = Inr () \<Longrightarrow>
   objectIDs (snd (Store_keywords uid vs s)) k =
     (if k \<in> set vs \<and> uid \<notin> set (objectIDs s k) then objectIDs s k @ [uid] else objectIDs s k)"
proof (induction vs arbitrary: s)
  case Nil
  then show ?case by simp
next
  case (Cons v vs)
  obtain r s1 where sk: "Store_keyword uid v s = (r, s1)" by (cases "Store_keyword uid v s")
  with Cons.prems have r: "r = Inr ()" and rest: "fst (Store_keywords uid vs s1) = Inr ()"
    by (auto split: sum.splits)
  have 1: "objectIDs s1 k =
      (if k = v \<and> uid \<notin> set (objectIDs s k) then objectIDs s k @ [uid] else objectIDs s k)"
    using Store_keyword_objectIDs [of uid v s k] sk r by simp
  have "objectIDs (snd (Store_keywords uid (v # vs) s)) k = objectIDs (snd (Store_keywords uid vs s1)) k"
    using sk r by simp
  also have "\<dots> = (if k \<in> set vs \<and> uid \<notin> set (objectIDs s1 k) then objectIDs s1 k @ [uid]
                   else objectIDs s1 k)"
    by (rule Cons.IH [OF rest])
  finally show ?case using 1 by auto
qed



lemma I4_Put:
  "I4 s \<Longrightarrow> (\<forall>r. b = KeywordJSON r \<longrightarrow> distinct (LensIdentifiers r)) \<Longrightarrow> I4 (snd (ss_Put k b s))"
  by (auto simp: ss_Put_eq I4_def)

lemma Store_fail_loop:
  "fst (Store_keywords uid (Summary meta) s) = Inl e \<Longrightarrow>
   Store E (Inr uid) meta name s = (Inl e, snd (Store_keywords uid (Summary meta) s))"
  by (cases "Store_keywords uid (Summary meta) s") (simp add: Store_def Marshal_Object_def)

lemma Store_success:
  assumes "Store E newV4 meta name s = (Inr resp, s')"
  shows "\<exists>uid s1. newV4 = Inr uid \<and> resp_LensID resp = uid
           \<and> Store_keywords uid (Summary meta) s = (Inr (), s1)
           \<and> ds s' = (ds s1)(name \<mapsto> IdText uid,
                  uuid_String uid \<mapsto> ObjectJSON \<lparr>LensID = uid, Name = name, MetaData = meta\<rparr>)
           \<and> writes s' = writes s1 @ [(name, IdText uid),
                  (uuid_String uid, ObjectJSON \<lparr>LensID = uid, Name = name, MetaData = meta\<rparr>)]"
proof -
  from assms obtain uid where u: "newV4 = Inr uid"
    by (cases newV4) (auto simp: Store_def)
  obtain r s1 where l: "Store_keywords uid (Summary meta) s = (r, s1)"
    by (cases "Store_keywords uid (Summary meta) s")
  with assms u have r: "r = Inr ()"
    by (cases r) (auto simp: Store_def Marshal_Object_def)
  show ?thesis
    using assms u l r
    by (auto simp: Store_def Marshal_Object_def ss_Put_eq split: if_splits sum.splits)
qed

lemma Store_I4: "I4 s \<Longrightarrow> I4 (snd (Store E newV4 meta name s))"
proof -
  assume i: "I4 s"
  show ?thesis
  proof (cases newV4)
    case (Inl e)
    with i show ?thesis by (simp add: Store_def)
  next
    case (Inr uid)
    obtain r s1 where l: "Store_keywords uid (Summary meta) s = (r, s1)"
      by (cases "Store_keywords uid (Summary meta) s")
    have i1: "I4 s1" using Store_keywords_I4 [OF i, of uid "Summary meta"] l by simp
    let ?obj = "ObjectJSON \<lparr>LensID = uid, Name = name, MetaData = meta\<rparr>"
    have i2: "I4 (snd (ss_Put name (IdText uid) s1))"
      by (rule I4_Put [OF i1]) simp
    have i3: "I4 (snd (ss_Put (uuid_String uid) ?obj (snd (ss_Put name (IdText uid) s1))))"
      by (rule I4_Put [OF i2]) simp
    show ?thesis
      using Inr l i1 i2 i3
      by (auto simp: Store_def Marshal_Object_def split: sum.splits prod.splits)
  qed
qed

lemma Stores_I4: "I4 s \<Longrightarrow> I4 (Stores E cs s)"
  by (induction cs arbitrary: s) (auto simp: Store_I4)

lemma I4_empty: "ds s = Map.empty \<Longrightarrow> I4 s"
  by (simp add: I4_def)



lemma objectIDs_at: "ds s' k = ds s k \<Longrightarrow> objectIDs s' k = objectIDs s k"
  by (simp add: objectIDs_def)

lemma uuid_String_neq_short: "length k \<noteq> 36 \<Longrightarrow> uuid_String u \<noteq> k"
  using length_uuid_String [of u] by auto

lemma Store_objectIDs:
  assumes "Store E newV4 meta name s = (Inr resp, s')"
    and "k \<noteq> name" and "k \<noteq> uuid_String (resp_LensID resp)"
  shows "objectIDs s' k =
     (if k \<in> set (Summary meta) \<and> resp_LensID resp \<notin> set (objectIDs s k)
      then objectIDs s k @ [resp_LensID resp] else objectIDs s k)"
proof -
  from Store_success [OF assms(1)] obtain uid s1 where
    u: "resp_LensID resp = uid" and l: "Store_keywords uid (Summary meta) s = (Inr (), s1)"
    and d: "ds s' = (ds s1)(name \<mapsto> IdText uid,
                  uuid_String uid \<mapsto> ObjectJSON \<lparr>LensID = uid, Name = name, MetaData = meta\<rparr>)"
    by blast
  have "ds s' k = ds s1 k" using d assms(2,3) u by simp
  then have "objectIDs s' k = objectIDs s1 k" by (rule objectIDs_at)
  also have "\<dots> = (if k \<in> set (Summary meta) \<and> uid \<notin> set (objectIDs s k)
      then objectIDs s k @ [uid] else objectIDs s k)"
    using Store_keywords_objectIDs [of uid "Summary meta" s k] l by simp
  finally show ?thesis using u by simp
qed

lemma Store_name_bound:
  assumes "Store E newV4 meta name s = (Inr resp, s')"
  shows "ds s' name \<noteq> None"
    and "name \<noteq> uuid_String (resp_LensID resp) \<Longrightarrow> ds s' name = Some (IdText (resp_LensID resp))"
    and "ds s' (uuid_String (resp_LensID resp)) =
           Some (ObjectJSON \<lparr>LensID = resp_LensID resp, Name = name, MetaData = meta\<rparr>)"
  using Store_success [OF assms] by auto



lemma Store_indexes:
  assumes "Store E newV4 meta name s = (Inr resp, s')"
    and "name \<notin> set (Summary meta)" and "uuid_String (resp_LensID resp) \<notin> set (Summary meta)"
  shows "ds s' (uuid_String (resp_LensID resp)) =
           Some (ObjectJSON \<lparr>LensID = resp_LensID resp, Name = name, MetaData = meta\<rparr>)"
    and "\<forall>k \<in> set (Summary meta). resp_LensID resp \<in> set (objectIDs s' k)"
proof -
  show "ds s' (uuid_String (resp_LensID resp)) =
           Some (ObjectJSON \<lparr>LensID = resp_LensID resp, Name = name, MetaData = meta\<rparr>)"
    by (rule Store_name_bound(3) [OF assms(1)])
  show "\<forall>k \<in> set (Summary meta). resp_LensID resp \<in> set (objectIDs s' k)"
  proof
    fix k assume k: "k \<in> set (Summary meta)"
    with assms(2,3) have "k \<noteq> name" "k \<noteq> uuid_String (resp_LensID resp)" by auto
    from Store_objectIDs [OF assms(1) this] k
    show "resp_LensID resp \<in> set (objectIDs s' k)" by (simp split: if_splits)
  qed
qed

lemma Store_writes:
  assumes "Store E newV4 meta name s = (Inr resp, s')"
  shows "\<exists>w. writes s' = writes s @ w @ [(name, IdText (resp_LensID resp)),
             (uuid_String (resp_LensID resp),
              ObjectJSON \<lparr>LensID = resp_LensID resp, Name = name, MetaData = meta\<rparr>)]
           \<and> (\<forall>(k, b) \<in> set w. k \<in> set (Summary meta) \<and> (\<exists>kw. b = KeywordJSON kw))"
proof -
  from Store_success [OF assms] obtain uid s1 where
    u: "resp_LensID resp = uid" and l: "Store_keywords uid (Summary meta) s = (Inr (), s1)"
    and w: "writes s' = writes s1 @ [(name, IdText uid),
                  (uuid_String uid, ObjectJSON \<lparr>LensID = uid, Name = name, MetaData = meta\<rparr>)]"
    by blast
  from Store_keywords_writes [of uid "Summary meta" s] l obtain w1 where
    "writes s1 = writes s @ w1" "\<forall>(k, b) \<in> set w1. k \<in> set (Summary meta) \<and> (\<exists>kw. b = KeywordJSON kw)"
    by auto
  with w u show ?thesis by auto
qed


section \<open>Facts about the keyword operations of a reindex\<close>


















lemma json_string_ascii: "\<forall>c \<in> set k. (of_char c :: nat) < 128 \<Longrightarrow> json_string k = k"
  unfolding json_string_def by (induction k) (simp_all add: Let_def)




section \<open>Facts about \<^verbatim>\<open>Index\<close>\<close>

lemma Magnify_Inr_guard:
  assumes "fst (Magnify E h s) = Inr r"
  shows "ds (ss s) h = None \<and> \<not> fst (tick (ss s))"
  using assms by (auto simp: Magnify_def ss_Has_eq split: if_splits)

lemma Magnify2_False:
  "Magnify2 E h False s =
     (case Magnify E h s of (Inl err, s') \<Rightarrow> (Inl err, s') | (Inr (p, m), s') \<Rightarrow> (Inr m, s'))"
  by (simp add: Magnify2_def)

lemma Index_indexed:
  assumes "req_Type req = ''ipld''" and "\<not> req_Reindex req"
    and "ds (ss s) (req_Identifier req) \<noteq> None" and "\<not> fst (tick (ss s))"
  shows "Index E newV4 req s = (Inl AlreadyIndexed, s\<lparr>ss := snd (tick (ss s))\<rparr>)"
  using assms by (simp add: Index_def Magnify2_False Magnify_indexed)

lemma Index_first_success:
  assumes "req_Type req = ''ipld''" and "\<not> req_Reindex req"
    and "Index E newV4 req s = (Inr resp, s')"
  shows "ds (ss s) (req_Identifier req) = None \<and> ds (ss s') (req_Identifier req) \<noteq> None"
proof -
  let ?h = "req_Identifier req"
  obtain r s1 where m: "Magnify E ?h s = (r, s1)" by (cases "Magnify E ?h s")
  with assms obtain p md where r: "r = Inr (p, md)"
    by (cases r) (auto simp: Index_def Magnify2_False)
  have g: "ds (ss s) ?h = None" using Magnify_Inr_guard [of E ?h s "(p, md)"] m r by simp
  obtain x q where st: "Store E newV4 md ?h (ss s1) = (x, q)" by (cases "Store E newV4 md ?h (ss s1)")
  with assms m r obtain ir where x: "x = Inr ir" and s': "s' = s1\<lparr>ss := q\<rparr>"
    by (cases x) (auto simp: Index_def Magnify2_False)
  have "ds q ?h \<noteq> None" using Store_name_bound(1) [of E newV4 md ?h "ss s1" ir q] st x by simp
  with g s' show ?thesis by simp
qed


lemma Magnify2_ss: "ss (snd (Magnify2 E h reindex s)) = snd (tick (ss s))"
proof (cases reindex)
  case True
  then show ?thesis
    using Magnify_contents_ss [of E h "s\<lparr>ss := snd (tick (ss s))\<rparr>"]
    by (cases "Magnify_contents E h (s\<lparr>ss := snd (tick (ss s))\<rparr>)")
       (auto simp: Magnify2_def ss_Has_eq split: sum.splits prod.splits)
next
  case False
  then show ?thesis
    using Magnify_ss [of E h s]
    by (cases "Magnify E h s") (auto simp: Magnify2_False split: sum.splits prod.splits)
qed

lemma Magnify2_True_absent:
  "ds (ss s) h = None \<Longrightarrow> \<not> fst (tick (ss s)) \<Longrightarrow>
   Magnify2 E h True s = (Inl NotFound, s\<lparr>ss := snd (tick (ss s))\<rparr>)"
  by (simp add: Magnify2_def ss_Has_eq)

lemma Index_reindex_absent:
  assumes "req_Type req = ''ipld''" and "req_Reindex req"
    and "ds (ss s) (req_Identifier req) = None" and "\<not> fst (tick (ss s))"
  shows "Index E newV4 req s = (Inl NotFound, s\<lparr>ss := snd (tick (ss s))\<rparr>)"
  using assms by (simp add: Index_def Magnify2_True_absent)

lemma Index_reindex_newV4:
  "req_Reindex req \<Longrightarrow> Index E newV4 req s = Index E newV4' req s"
  by (simp add: Index_def Let_def split: prod.split sum.split)

lemma lens_Get_ds: "ds (snd (lens_Get k s)) = ds s"
  by (simp add: lens_Get_def SearchByKeyName_def ss_Has_eq ss_Get_eq)

lemma lens_Get_id_text:
  "ds s k = Some (IdText u) \<Longrightarrow>
   fst (lens_Get k s) = Inr b \<Longrightarrow> b = IdText u"
  by (auto simp: lens_Get_def SearchByKeyName_def ss_Has_eq ss_Get_eq split: if_splits)

lemma uuid_FromBytes_id_text: "uuid_FromBytes (blob_bytes E (IdText u)) = Inl UUIDLength"
  by (simp add: blob_bytes_def uuid_FromBytes_String)

lemma Index_reindex_id_text:
  assumes "req_Type req = ''ipld''" and "req_Reindex req"
    and "ds (ss s) (req_Identifier req) = Some (IdText u)"
  shows "\<exists>err. fst (Index E newV4 req s) = Inl err"
    and "ds (ss (snd (Index E newV4 req s))) = ds (ss s)"
    and "fst (Magnify2 E (req_Identifier req) True s) = Inr md \<Longrightarrow> faults (ss s) = [] \<Longrightarrow>
         fst (Index E newV4 req s) = Inl (InvalidUUID (req_Identifier req))"
proof -
  let ?h = "req_Identifier req"
  obtain x s1 where m: "Magnify2 E ?h True s = (x, s1)" by (cases "Magnify2 E ?h True s")
  have s1: "ss s1 = snd (tick (ss s))" using Magnify2_ss [of E ?h True s] m by simp
  then have d1: "ds (ss s1) ?h = Some (IdText u)" using assms(3) by simp
  obtain y q where g: "lens_Get ?h (ss s1) = (y, q)" by (cases "lens_Get ?h (ss s1)")
  have dq: "ds q = ds (ss s)" using lens_Get_ds [of ?h "ss s1"] g s1 by simp
  have y: "y = Inr b \<Longrightarrow> b = IdText u" for b
    using lens_Get_id_text [OF d1, of b] g by simp
  show "\<exists>err. fst (Index E newV4 req s) = Inl err"
  proof (cases x)
    case (Inl e)
    then show ?thesis using assms(1,2) m by (simp add: Index_def)
  next
    case (Inr md')
    show ?thesis
    proof (cases y)
      case (Inl e)
      then show ?thesis using assms(1,2) m Inr g by (simp add: Index_def)
    next
      case yr: (Inr b)
      then show ?thesis
        using assms(1,2) m Inr g y [of b] by (simp add: Index_def uuid_FromBytes_id_text)
    qed
  qed
  show "ds (ss (snd (Index E newV4 req s))) = ds (ss s)"
  proof (cases x)
    case (Inl e)
    then show ?thesis using assms(1,2) m s1 by (simp add: Index_def)
  next
    case (Inr md')
    show ?thesis
    proof (cases y)
      case (Inl e)
      then show ?thesis using assms(1,2) m Inr g dq by (simp add: Index_def)
    next
      case yr: (Inr b)
      then show ?thesis
        using assms(1,2) m Inr g y [of b] dq by (simp add: Index_def uuid_FromBytes_id_text)
    qed
  qed
  show "fst (Index E newV4 req s) = Inl (InvalidUUID ?h)"
    if ok: "fst (Magnify2 E ?h True s) = Inr md" and nf: "faults (ss s) = []"
  proof -
    from ok m have x: "x = Inr md" by simp
    have f1: "faults (ss s1) = []" using s1 nf by (simp add: tick_def)
    have "lens_Get ?h (ss s1) = (Inr (IdText u), ss s1)"
      using d1 f1 by (simp add: lens_Get_def SearchByKeyName_def ss_Has_eq ss_Get_eq tick_def)
    then show ?thesis
      using assms(1,2) m x by (simp add: Index_def uuid_FromBytes_id_text)
  qed
qed


section \<open>Running the small instance\<close>

lemma uuid_String_1: "uuid_String 1 = ''00000000-0000-0000-0000-000000000001''"
  by (simp add: uuid_String_def digits_numeral hexdigit_def)

lemma uuid_String_2: "uuid_String 2 = ''00000000-0000-0000-0000-000000000002''"
  by (simp add: uuid_String_def digits_numeral hexdigit_def)

lemmas run = Store_def Store_keyword_def ss_Has_eq ss_Get_eq ss_Put_eq tick_def
  Marshal_Object_def Marshal_Keyword_def demo_Env_def demo_ss_def demo_sea_def demo_pic_def
  uuid_String_1 uuid_String_2

lemma demo_Store_sea:
  "Store demo_Env (Inr 1) demo_sea ''QmSea'' demo_ss =
     (Inr \<lparr>ContentHash = ''bafy'', resp_LensID = 1\<rparr>,
      snd (Store demo_Env (Inr 1) demo_sea ''QmSea'' demo_ss))"
  by (simp add: run)

lemma demo_Store_sea_pic:
  "Store demo_Env (Inr 2) demo_pic ''QmPic''
       (snd (Store demo_Env (Inr 1) demo_sea ''QmSea'' demo_ss)) =
     (Inr \<lparr>ContentHash = ''bafy'', resp_LensID = 2\<rparr>,
      snd (Store demo_Env (Inr 2) demo_pic ''QmPic''
             (snd (Store demo_Env (Inr 1) demo_sea ''QmSea'' demo_ss))))"
  by (simp add: run)

lemma demo_Store_pic:
  "Store demo_Env (Inr 2) demo_pic ''QmPic'' demo_ss =
     (Inr \<lparr>ContentHash = ''bafy'', resp_LensID = 2\<rparr>,
      snd (Store demo_Env (Inr 2) demo_pic ''QmPic'' demo_ss))"
  by (simp add: run)

lemma demo_Store_pic_sea:
  "Store demo_Env (Inr 1) demo_sea ''QmSea''
       (snd (Store demo_Env (Inr 2) demo_pic ''QmPic'' demo_ss)) =
     (Inr \<lparr>ContentHash = ''bafy'', resp_LensID = 1\<rparr>,
      snd (Store demo_Env (Inr 1) demo_sea ''QmSea''
             (snd (Store demo_Env (Inr 2) demo_pic ''QmPic'' demo_ss))))"
  by (simp add: run)


lemma demo_guard: "ds (ss demo_Service) h = None" "\<not> fst (tick (ss demo_Service))"
  by (simp_all add: demo_Service_def demo_ss_def tick_def)

lemmas run_Magnify = Index_def Magnify2_def Magnify_def Magnify_contents_def Magnify_default_def
  Magnify_pdf_def Magnify_summarize_eq Magnify_finish_def ta_Summarize_def ta_Clear_def
  FieldsFunc_def demo_Service_def demo_req_def Let_def

lemma demo_Index_first:
  "fst (Index demo_Env (Inr 1) demo_req demo_Service) =
     Inr \<lparr>Id = ''00000000-0000-0000-0000-000000000001'', Keywords = [''a'', ''b'']\<rparr>"
  by (simp add: run_Magnify run)

lemma demo_Index_first_faults:
  "faults (ss (snd (Index demo_Env (Inr 1) demo_req demo_Service))) = []"
  by (simp add: run_Magnify run)

lemma demo_faulty_loop:
  "fst (Store_keywords 1 (Summary demo_sea) demo_faulty) = Inl StoreIOError"
  by (simp add: run demo_faulty_def)

lemma demo_faulty_after:
  "faults (snd (Store demo_Env (Inr 1) demo_sea ''QmText'' demo_faulty)) = []"
  by (simp add: run demo_faulty_def)

lemma demo_rebind:
  "fst (Store demo_Env (Inr 2) demo_pic ''QmSea''
          (snd (Store demo_Env (Inr 1) demo_sea ''QmSea'' demo_ss))) =
     Inr \<lparr>ContentHash = ''bafy'', resp_LensID = 2\<rparr>"
  "ds (snd (Store demo_Env (Inr 1) demo_sea ''QmSea'' demo_ss)) (uuid_String 2) = None"
  "objectIDs (snd (Store demo_Env (Inr 1) demo_sea ''QmSea'' demo_ss)) ''waves'' = [1]"
  by (simp_all add: run objectIDs_def)








section \<open>Search: the response of the API server\<close>

lemma foldl_append_Some:
  "foldl (\<lambda>objs v. objs @ [Some (f v)]) acc xs = acc @ map (\<lambda>v. Some (f v)) xs"
  by (induction xs arbitrary: acc) simp_all

lemma Search_result:
  "KeywordSearch keywords = Inr objects \<Longrightarrow>
   Search KeywordSearch keywords =
     Inr \<lparr>Objects = replicate (length objects) None @ map (\<lambda>v. Some (adapt v)) objects\<rparr>"
  by (simp add: Search_def foldl_append_Some)


text \<open>
  C6.  The claim: a keyword search returns exactly the matching objects, adapted into
  \<open>(name, mimeType, category)\<close> records, and nothing else; after a single object with
  summary \<open>{"lighthouse"}\<close> was indexed, the search for \<open>["lighthouse"]\<close> returns exactly
  that one record.  What \<^verbatim>\<open>Search\<close> returns for that one object: a nil entry in front of the
  record, two entries in all.
\<close>

theorem Search_lighthouse_two_entries:
  "Search (\<lambda>keywords. Inr [\<lparr>LensID = 1, Name = ''QmLight'',
        MetaData = \<lparr>Summary = [''lighthouse''], MimeType = ''image/png'', Category = ''image''\<rparr>\<rparr>])
      [''lighthouse'']
   = Inr \<lparr>Objects = [None,
        Some \<lparr>pb_Name = ''QmLight'', pb_MimeType = ''image/png'', pb_Category = ''image''\<rparr>]\<rparr>"
  by (simp add: Search_def adapt_def)

section \<open>Store: identifiers of a keyword record\<close>

text \<open>
  C2.  After any sequence of \<^verbatim>\<open>Store\<close> calls (the successful ones and the failed ones alike)
  on a datastore whose keyword records list no identifier twice, no keyword record lists an
  identifier twice.  In particular: when two \<^verbatim>\<open>Store\<close> calls with different identifiers
  \<open>uid1\<close>, \<open>uid2\<close> succeed one after the other, both summaries hold the keyword \<^verbatim>\<open>ocean\<close>,
  there was no record under \<^verbatim>\<open>ocean\<close> before and neither object is itself named
  \<^verbatim>\<open>ocean\<close>, the record under \<^verbatim>\<open>ocean\<close> then lists exactly \<open>uid1\<close> and \<open>uid2\<close>, each once (in the
  order of the calls; the statement holds for the calls in either order).
\<close>

theorem Store_keyword_ids_distinct:
  "(I4 s \<longrightarrow> I4 (Stores E cs s))
   \<and> (ds s ''ocean'' = None \<and> uid1 \<noteq> uid2 \<and> name1 \<noteq> ''ocean'' \<and> name2 \<noteq> ''ocean''
      \<and> ''ocean'' \<in> set (Summary meta1) \<and> ''ocean'' \<in> set (Summary meta2)
      \<and> Store E (Inr uid1) meta1 name1 s = (Inr resp1, s1)
      \<and> Store E (Inr uid2) meta2 name2 s1 = (Inr resp2, s2)
      \<longrightarrow> objectIDs s2 ''ocean'' = [uid1, uid2])"
proof (intro conjI impI)
  assume "I4 s" then show "I4 (Stores E cs s)" by (rule Stores_I4)
next
  assume a: "ds s ''ocean'' = None \<and> uid1 \<noteq> uid2 \<and> name1 \<noteq> ''ocean'' \<and> name2 \<noteq> ''ocean''
      \<and> ''ocean'' \<in> set (Summary meta1) \<and> ''ocean'' \<in> set (Summary meta2)
      \<and> Store E (Inr uid1) meta1 name1 s = (Inr resp1, s1)
      \<and> Store E (Inr uid2) meta2 name2 s1 = (Inr resp2, s2)"
  then have r1: "resp_LensID resp1 = uid1" and r2: "resp_LensID resp2 = uid2"
    using Store_success [of E "Inr uid1" meta1 name1 s resp1 s1]
      Store_success [of E "Inr uid2" meta2 name2 s1 resp2 s2] by auto
  have 0: "objectIDs s ''ocean'' = []" using a by (simp add: objectIDs_def)
  have 1: "objectIDs s1 ''ocean'' = [uid1]"
    using Store_objectIDs [of E "Inr uid1" meta1 name1 s resp1 s1 "''ocean''"] a r1 0
      uuid_String_neq_short [of "''ocean''" uid1] by auto
  show "objectIDs s2 ''ocean'' = [uid1, uid2]"
    using Store_objectIDs [of E "Inr uid2" meta2 name2 s1 resp2 s2 "''ocean''"] a r2 1
      uuid_String_neq_short [of "''ocean''" uid2] by auto
qed

theorem Store_keyword_ids_distinct_witness:
  "I4 (Stores demo_Env [(Inr 1, demo_sea, ''QmSea''), (Inr 2, demo_pic, ''QmPic'')] demo_ss)
   \<and> objectIDs (Stores demo_Env [(Inr 1, demo_sea, ''QmSea''), (Inr 2, demo_pic, ''QmPic'')] demo_ss)
        ''ocean'' = [1, 2]
   \<and> objectIDs (Stores demo_Env [(Inr 2, demo_pic, ''QmPic''), (Inr 1, demo_sea, ''QmSea'')] demo_ss)
        ''ocean'' = [2, 1]"
proof -
  have e: "I4 demo_ss" "ds demo_ss ''ocean'' = None"
    by (simp_all add: I4_def demo_ss_def)
  have m: "''ocean'' \<in> set (Summary demo_sea)" "''ocean'' \<in> set (Summary demo_pic)"
    by (simp_all add: demo_sea_def demo_pic_def)
  let ?r1 = "\<lparr>ContentHash = ''bafy'', resp_LensID = 1\<rparr>"
  let ?r2 = "\<lparr>ContentHash = ''bafy'', resp_LensID = 2\<rparr>"
  let ?a = "snd (Store demo_Env (Inr 1) demo_sea ''QmSea'' demo_ss)"
  let ?b = "snd (Store demo_Env (Inr 2) demo_pic ''QmPic'' demo_ss)"
  show ?thesis
    using Store_keyword_ids_distinct
        [of demo_ss demo_Env "[(Inr 1, demo_sea, ''QmSea''), (Inr 2, demo_pic, ''QmPic'')]"
            1 2 "''QmSea''" "''QmPic''" demo_sea demo_pic ?r1 ?a ?r2
            "snd (Store demo_Env (Inr 2) demo_pic ''QmPic'' ?a)"]
      Store_keyword_ids_distinct
        [of demo_ss demo_Env "[]" 2 1 "''QmPic''" "''QmSea''" demo_pic demo_sea ?r2 ?b ?r1
            "snd (Store demo_Env (Inr 1) demo_sea ''QmSea'' ?b)"]
      e m demo_Store_sea demo_Store_sea_pic demo_Store_pic demo_Store_pic_sea
    by simp
qed

section \<open>Index: the already-indexed guard\<close>

text \<open>
  C3.  A request of type \<^verbatim>\<open>ipld\<close> without \<^verbatim>\<open>reindex\<close>.  When a record is stored under the
  identifier and the datastore answers, \<^verbatim>\<open>Index\<close> returns the already-indexed error; the
  result does not depend on the collaborators \<open>E\<close> (nothing is fetched or classified) and
  only the datastore's pending outcome is consumed.  When \<^verbatim>\<open>Index\<close> succeeds, no record was
  stored under the identifier before, and a second request for it (with any collaborators
  \<open>E'\<close> and any new id) returns the already-indexed error.
\<close>

theorem Index_rejects_indexed_name:
  assumes "req_Type req = ''ipld''" and "\<not> req_Reindex req"
  shows "(ds (ss s) (req_Identifier req) \<noteq> None \<and> \<not> fst (tick (ss s)) \<longrightarrow>
            Index E newV4 req s = (Inl AlreadyIndexed, s\<lparr>ss := snd (tick (ss s))\<rparr>))
       \<and> (Index E newV4 req s = (Inr resp, s') \<and> \<not> fst (tick (ss s')) \<longrightarrow>
            ds (ss s) (req_Identifier req) = None
            \<and> fst (Index E' newV4' req s') = Inl AlreadyIndexed)"
  using Index_indexed [OF assms] Index_first_success [OF assms, of E newV4 s resp s']
    Index_indexed [OF assms, of s' E' newV4']
  by auto

theorem Index_rejects_indexed_name_witness:
  "fst (Index demo_Env (Inr 1) demo_req demo_Service) =
     Inr \<lparr>Id = ''00000000-0000-0000-0000-000000000001'', Keywords = [''a'', ''b'']\<rparr>
   \<and> ds (ss demo_Service) ''QmText'' = None
   \<and> fst (Index demo_Env (Inr 2) demo_req (snd (Index demo_Env (Inr 1) demo_req demo_Service))) =
     Inl AlreadyIndexed"
proof -
  have r: "req_Type demo_req = ''ipld''" "\<not> req_Reindex demo_req" "req_Identifier demo_req = ''QmText''"
    by (simp_all add: demo_req_def)
  have t: "\<not> fst (tick (ss (snd (Index demo_Env (Inr 1) demo_req demo_Service))))"
    by (simp add: tick_def demo_Index_first_faults)
  have p: "Index demo_Env (Inr 1) demo_req demo_Service =
      (Inr \<lparr>Id = ''00000000-0000-0000-0000-000000000001'', Keywords = [''a'', ''b'']\<rparr>,
       snd (Index demo_Env (Inr 1) demo_req demo_Service))"
    using demo_Index_first by (simp add: prod_eq_iff)
  show ?thesis
    using Index_rejects_indexed_name [OF r(1,2), of demo_Service demo_Env "Inr 1"
        "\<lparr>Id = ''00000000-0000-0000-0000-000000000001'', Keywords = [''a'', ''b'']\<rparr>"
        "snd (Index demo_Env (Inr 1) demo_req demo_Service)" demo_Env "Inr 2"]
      demo_Index_first p t r(3)
    by simp
qed



section \<open>Magnify: dispatch on the detected content type\<close>

text \<open>
  C5.  \<^verbatim>\<open>Magnify\<close> on an identifier that has no record, with contents \<open>contents\<close> whose detected
  type \<open>ct\<close> is a valid MIME type.  If \<open>ct\<close> is \<^verbatim>\<open>application/pdf\<close> and the PDF collaborators
  give the text, the summary is the deduplicated result of summarizing that text with ratio
  \<open>1/4\<close>, and the category is \<^verbatim>\<open>pdf\<close>.  If \<open>ct\<close> is \<^verbatim>\<open>text/*\<close>, the summary is the
  deduplicated result of summarizing the raw contents with ratio \<open>1/4\<close>, and the category is
  \<^verbatim>\<open>document\<close>.  If \<open>ct\<close> is \<^verbatim>\<open>image/*\<close> and the classifier answers \<open>keyword\<close>, the summary is
  the one-element list \<open>[keyword]\<close> and the category is \<^verbatim>\<open>image\<close>.
\<close>

theorem Magnify_dispatches_on_detected_type:
  assumes "ds (ss s) h = None" and "\<not> fst (tick (ss s))"
    and "ExtractContents E h = Inr contents"
    and "DetectContentType E contents = ct" and "valid_mime ct"
  shows "(is_pdf ct \<and> pdf_NewReader E contents = Inr reader \<and> GetPlainText E reader = Inr b
            \<and> ReadFrom E b = Inr text \<longrightarrow>
          fst (Magnify E h s) =
            Inr (''application/pdf'',
                 \<lparr>Summary = Unique (fst (ta_Summarize E text (1 / 4) (ta s))),
                  MimeType = ct, Category = ''pdf''\<rparr>))
       \<and> (is_text ct \<longrightarrow>
          fst (Magnify E h s) =
            Inr (media_type ct,
                 \<lparr>Summary = Unique (fst (ta_Summarize E contents (1 / 4) (ta s))),
                  MimeType = ct, Category = ''document''\<rparr>))
       \<and> (is_image ct \<and> ClassifyImage E contents = Inr keyword \<longrightarrow>
          fst (Magnify E h s) =
            Inr (media_type ct, \<lparr>Summary = [keyword], MimeType = ct, Category = ''image''\<rparr>))"
proof -
  have m: "Magnify E h s = Magnify_contents E h (s\<lparr>ss := snd (tick (ss s))\<rparr>)"
    using assms(1,2) by (rule Magnify_fresh)
  note d = Magnify_contents_dispatch [of E h contents "s\<lparr>ss := snd (tick (ss s))\<rparr>"]
  show ?thesis
    using assms(3,4,5) is_text_not_pdf [of ct] is_image_not_pdf [of ct] is_image_not_text [of ct]
    by (auto simp: m d Let_def Magnify_pdf_def Magnify_summarize_eq Magnify_finish_def is_pdf_def)
qed


theorem Magnify_dispatches_on_detected_type_witness:
  "fst (Magnify demo_Env ''QmPdf'' demo_Service) =
     Inr (''application/pdf'',
          \<lparr>Summary = [''sea'', ''shore''], MimeType = ''application/pdf'', Category = ''pdf''\<rparr>)
   \<and> fst (Magnify demo_Env ''QmText'' demo_Service) =
     Inr (''text/plain'',
          \<lparr>Summary = [''a'', ''b''], MimeType = ''text/plain; charset=utf-8'',
           Category = ''document''\<rparr>)
   \<and> fst (Magnify demo_Env ''QmImg'' demo_Service) =
     Inr (''image/png'',
          \<lparr>Summary = [''lighthouse''], MimeType = ''image/png'', Category = ''image''\<rparr>)"
proof -
  have pdf: "ExtractContents demo_Env ''QmPdf'' = Inr ''%PDF sea shore''"
      "DetectContentType demo_Env ''%PDF sea shore'' = ''application/pdf''"
      "valid_mime ''application/pdf''" "is_pdf ''application/pdf''"
      "pdf_NewReader demo_Env ''%PDF sea shore'' = Inr ''%PDF sea shore''"
      "GetPlainText demo_Env ''%PDF sea shore'' = Inr ''sea shore''"
      "ReadFrom demo_Env ''sea shore'' = Inr ''sea shore''"
    by (simp_all add: demo_Env_def valid_mime_def is_pdf_def media_type_def)
  have tex: "ExtractContents demo_Env ''QmText'' = Inr ''a b''"
      "DetectContentType demo_Env ''a b'' = ''text/plain; charset=utf-8''"
      "valid_mime ''text/plain; charset=utf-8''" "is_text ''text/plain; charset=utf-8''"
    by (simp_all add: demo_Env_def valid_mime_def is_text_def)
  have img: "ExtractContents demo_Env ''QmImg'' = Inr ''PNG1''"
      "DetectContentType demo_Env ''PNG1'' = ''image/png''"
      "valid_mime ''image/png''" "is_image ''image/png''"
      "ClassifyImage demo_Env ''PNG1'' = Inr ''lighthouse''"
    by (simp_all add: demo_Env_def valid_mime_def is_image_def)
  have ev: "fst (ta_Summarize demo_Env ''sea shore'' (1 / 4) (ta demo_Service)) = [''sea'', ''shore'']"
      "fst (ta_Summarize demo_Env ''a b'' (1 / 4) (ta demo_Service)) = [''a'', ''b'']"
      "media_type ''text/plain; charset=utf-8'' = ''text/plain''"
      "media_type ''image/png'' = ''image/png''"
    by (simp_all add: ta_Summarize_def demo_Env_def demo_Service_def FieldsFunc_def media_type_def)
  show ?thesis
    using Magnify_dispatches_on_detected_type [OF demo_guard pdf(1,2,3), of "''%PDF sea shore''" "''sea shore''" "''sea shore''"]
      Magnify_dispatches_on_detected_type [OF demo_guard tex(1,2,3)]
      Magnify_dispatches_on_detected_type [OF demo_guard img(1,2,3), of _ _ _ "''lighthouse''"]
      pdf tex img ev
    by simp
qed




text \<open>
  C7.  When the detected type is a valid MIME type that is neither \<^verbatim>\<open>application/pdf\<close> nor
  \<^verbatim>\<open>text/*\<close> nor \<^verbatim>\<open>image/*\<close>, \<^verbatim>\<open>Magnify\<close> fails with the unsupported-content-type error; the
  contents of the datastore and its list of writes are what they were before the call, and
  so is the summarizer.
\<close>

theorem Magnify_unsupported_type_writes_nothing:
  assumes "ds (ss s) h = None" and "\<not> fst (tick (ss s))"
    and "ExtractContents E h = Inr contents"
    and "DetectContentType E contents = ct" and "valid_mime ct"
    and "\<not> is_pdf ct" and "\<not> is_text ct" and "\<not> is_image ct"
  shows "fst (Magnify E h s) = Inl UnsupportedContentType
       \<and> ds (ss (snd (Magnify E h s))) = ds (ss s)
       \<and> writes (ss (snd (Magnify E h s))) = writes (ss s)
       \<and> ta (snd (Magnify E h s)) = ta s"
proof -
  have m: "Magnify E h s = Magnify_contents E h (s\<lparr>ss := snd (tick (ss s))\<rparr>)"
    using assms(1,2) by (rule Magnify_fresh)
  note d = Magnify_contents_dispatch [of E h contents "s\<lparr>ss := snd (tick (ss s))\<rparr>"]
  show ?thesis
    using assms(3-8) by (simp add: m d Let_def)
qed


theorem Magnify_unsupported_type_writes_nothing_witness:
  "fst (Magnify demo_Env ''QmBin'' demo_Service) = Inl UnsupportedContentType
   \<and> ds (ss (snd (Magnify demo_Env ''QmBin'' demo_Service))) = Map.empty
   \<and> writes (ss (snd (Magnify demo_Env ''QmBin'' demo_Service))) = []"
proof -
  have bin: "ExtractContents demo_Env ''QmBin'' = Inr ''ELF''"
      "DetectContentType demo_Env ''ELF'' = ''application/octet-stream''"
      "valid_mime ''application/octet-stream''" "\<not> is_pdf ''application/octet-stream''"
      "\<not> is_text ''application/octet-stream''" "\<not> is_image ''application/octet-stream''"
    by (simp_all add: demo_Env_def valid_mime_def is_pdf_def is_text_def is_image_def media_type_def)
  show ?thesis
    using Magnify_unsupported_type_writes_nothing [OF demo_guard bin] by (simp add: demo_Service_def demo_ss_def)
qed









section \<open>Store: the order of the writes\<close>

text \<open>
  C9.  A successful \<^verbatim>\<open>Store\<close> makes its writes in this order: keyword records under keywords of
  the summary, then the name record, then the object record.  When the loop over the summary
  fails, \<^verbatim>\<open>Store\<close> fails with that error and the only writes it made are keyword records
  under keywords of the summary.  Then, if no record was stored under the name before the
  call and the name is not itself a keyword of the summary, no record is stored under the
  name afterwards, and a following \<^verbatim>\<open>Magnify\<close> of the name passes the guard (when the
  datastore answers): it goes on to fetch the contents.
\<close>

theorem Store_writes_name_after_keywords:
  "(Store E newV4 meta name s = (Inr resp, s') \<longrightarrow>
      (\<exists>w. writes s' = writes s @ w @ [(name, IdText (resp_LensID resp)),
             (uuid_String (resp_LensID resp),
              ObjectJSON \<lparr>LensID = resp_LensID resp, Name = name, MetaData = meta\<rparr>)]
           \<and> (\<forall>(k, b) \<in> set w. k \<in> set (Summary meta) \<and> (\<exists>kw. b = KeywordJSON kw))))
   \<and> (fst (Store_keywords uid (Summary meta) s) = Inl e \<longrightarrow>
        fst (Store E (Inr uid) meta name s) = Inl e
        \<and> (\<exists>w. writes (snd (Store E (Inr uid) meta name s)) = writes s @ w
              \<and> (\<forall>(k, b) \<in> set w. k \<in> set (Summary meta) \<and> (\<exists>kw. b = KeywordJSON kw)))
        \<and> (ds s name = None \<and> name \<notin> set (Summary meta) \<longrightarrow>
             ds (snd (Store E (Inr uid) meta name s)) name = None
             \<and> (ss sv = snd (Store E (Inr uid) meta name s) \<and> \<not> fst (tick (ss sv)) \<longrightarrow>
                  Magnify E' name sv = Magnify_contents E' name (sv\<lparr>ss := snd (tick (ss sv))\<rparr>))))"
proof (intro conjI impI)
  assume "Store E newV4 meta name s = (Inr resp, s')"
  then show "\<exists>w. writes s' = writes s @ w @ [(name, IdText (resp_LensID resp)),
             (uuid_String (resp_LensID resp),
              ObjectJSON \<lparr>LensID = resp_LensID resp, Name = name, MetaData = meta\<rparr>)]
           \<and> (\<forall>(k, b) \<in> set w. k \<in> set (Summary meta) \<and> (\<exists>kw. b = KeywordJSON kw))"
    by (rule Store_writes)
next
  assume f: "fst (Store_keywords uid (Summary meta) s) = Inl e"
  note st = Store_fail_loop [OF f, of E name]
  show "fst (Store E (Inr uid) meta name s) = Inl e" by (simp add: st)
  show "\<exists>w. writes (snd (Store E (Inr uid) meta name s)) = writes s @ w
              \<and> (\<forall>(k, b) \<in> set w. k \<in> set (Summary meta) \<and> (\<exists>kw. b = KeywordJSON kw))"
    using Store_keywords_writes [of uid "Summary meta" s] by (simp add: st)
  assume n: "ds s name = None \<and> name \<notin> set (Summary meta)"
  then show d: "ds (snd (Store E (Inr uid) meta name s)) name = None"
    using Store_keywords_ds_other [of name "Summary meta" uid s] by (simp add: st)
  assume "ss sv = snd (Store E (Inr uid) meta name s) \<and> \<not> fst (tick (ss sv))"
  with d show "Magnify E' name sv = Magnify_contents E' name (sv\<lparr>ss := snd (tick (ss sv))\<rparr>)"
    using Magnify_fresh [of sv name E'] by auto
qed


theorem Store_writes_name_after_keywords_witness:
  "(\<exists>w. writes (snd (Store demo_Env (Inr 1) demo_sea ''QmSea'' demo_ss)) =
          writes demo_ss @ w @ [(''QmSea'', IdText 1),
             (uuid_String 1, ObjectJSON \<lparr>LensID = 1, Name = ''QmSea'', MetaData = demo_sea\<rparr>)]
        \<and> (\<forall>(k, b) \<in> set w. k \<in> set (Summary demo_sea) \<and> (\<exists>kw. b = KeywordJSON kw)))
   \<and> fst (Store demo_Env (Inr 1) demo_sea ''QmText'' demo_faulty) = Inl StoreIOError
   \<and> ds (snd (Store demo_Env (Inr 1) demo_sea ''QmText'' demo_faulty)) ''QmText'' = None
   \<and> Magnify demo_Env ''QmText''
        \<lparr>ss = snd (Store demo_Env (Inr 1) demo_sea ''QmText'' demo_faulty), ta = ta demo_Service\<rparr>
      = Magnify_contents demo_Env ''QmText''
        \<lparr>ss = snd (tick (snd (Store demo_Env (Inr 1) demo_sea ''QmText'' demo_faulty))),
         ta = ta demo_Service\<rparr>"
proof -
  let ?s' = "snd (Store demo_Env (Inr 1) demo_sea ''QmText'' demo_faulty)"
  let ?sv = "\<lparr>ss = ?s', ta = ta demo_Service\<rparr>"
  have h: "ds demo_faulty ''QmText'' = None" "''QmText'' \<notin> set (Summary demo_sea)"
    by (simp_all add: demo_faulty_def demo_sea_def)
  have t: "\<not> fst (tick ?s')" by (simp add: tick_def demo_faulty_after)
  show ?thesis
    using Store_writes_name_after_keywords
        [of demo_Env "Inr 1" demo_sea "''QmSea''" demo_ss "\<lparr>ContentHash = ''bafy'', resp_LensID = 1\<rparr>"
            "snd (Store demo_Env (Inr 1) demo_sea ''QmSea'' demo_ss)"]
      Store_writes_name_after_keywords
        [of demo_Env "Inr 1" demo_sea "''QmText''" demo_faulty _ _ 1 StoreIOError ?sv demo_Env]
      demo_Store_sea demo_faulty_loop h t
    by simp
qed




text \<open>
  C10.  \<^verbatim>\<open>Store\<close> makes no check on the name: two calls with the same name can both succeed.
  After the first the name is bound to the first id; after the second it is bound to the
  second id, which differs from the first, while the first call's object record is still
  stored under the first id and every keyword record that listed the first id still lists
  it.  The ids are fresh: the text of the first id is not the name nor a keyword of the
  second summary, and nothing is stored under the text of the second id when the second
  call begins.
\<close>

theorem Store_twice_rebinds_name:
  assumes first: "Store E newV4 meta1 name s = (Inr resp1, s1)"
    and second: "Store E newV4' meta2 name s1 = (Inr resp2, s2)"
    and fresh1: "uuid_String (resp_LensID resp1) \<noteq> name"
      "uuid_String (resp_LensID resp1) \<notin> set (Summary meta2)"
    and fresh2: "ds s1 (uuid_String (resp_LensID resp2)) = None"
  shows "ds s1 name = Some (IdText (resp_LensID resp1))
       \<and> ds s2 name = Some (IdText (resp_LensID resp2))
       \<and> resp_LensID resp2 \<noteq> resp_LensID resp1
       \<and> ds s2 (uuid_String (resp_LensID resp1)) =
            Some (ObjectJSON \<lparr>LensID = resp_LensID resp1, Name = name, MetaData = meta1\<rparr>)
       \<and> (\<forall>k. resp_LensID resp1 \<in> set (objectIDs s1 k) \<longrightarrow> resp_LensID resp1 \<in> set (objectIDs s2 k))"
proof -
  let ?u1 = "resp_LensID resp1" and ?u2 = "resp_LensID resp2"
  have n1: "ds s1 name = Some (IdText ?u1)"
    using Store_name_bound(2) [OF first] fresh1(1) by simp
  have o1: "ds s1 (uuid_String ?u1) = Some (ObjectJSON \<lparr>LensID = ?u1, Name = name, MetaData = meta1\<rparr>)"
    by (rule Store_name_bound(3) [OF first])
  have ne: "name \<noteq> uuid_String ?u2" using n1 fresh2 by auto
  have neq: "?u2 \<noteq> ?u1" using o1 fresh2 by auto
  from Store_success [OF second] obtain t where
    l: "Store_keywords ?u2 (Summary meta2) s1 = (Inr (), t)"
    and d: "ds s2 = (ds t)(name \<mapsto> IdText ?u2,
                  uuid_String ?u2 \<mapsto> ObjectJSON \<lparr>LensID = ?u2, Name = name, MetaData = meta2\<rparr>)"
    by auto
  have n2: "ds s2 name = Some (IdText ?u2)" using d ne by simp
  have "ds s2 (uuid_String ?u1) = ds t (uuid_String ?u1)"
    using d fresh1(1) neq by simp
  also have "\<dots> = ds s1 (uuid_String ?u1)"
    using Store_keywords_ds_other [of "uuid_String ?u1" "Summary meta2" ?u2 s1] fresh1(2) l by simp
  finally have o2: "ds s2 (uuid_String ?u1) = Some (ObjectJSON \<lparr>LensID = ?u1, Name = name, MetaData = meta1\<rparr>)"
    using o1 by simp
  have k: "?u1 \<in> set (objectIDs s2 k)" if m: "?u1 \<in> set (objectIDs s1 k)" for k
  proof -
    from m n1 have "k \<noteq> name" by (auto simp: objectIDs_def)
    moreover from m fresh2 have "k \<noteq> uuid_String ?u2" by (auto simp: objectIDs_def)
    ultimately have "ds s2 k = ds t k" using d by simp
    then have "objectIDs s2 k = objectIDs t k" by (rule objectIDs_at)
    moreover have "?u1 \<in> set (objectIDs t k)"
      using Store_keywords_mono [OF m, of ?u2 "Summary meta2"] l by simp
    ultimately show ?thesis by simp
  qed
  from n1 n2 neq o2 k show ?thesis by blast
qed

theorem Store_twice_rebinds_name_witness:
  "ds (snd (Store demo_Env (Inr 2) demo_pic ''QmSea''
             (snd (Store demo_Env (Inr 1) demo_sea ''QmSea'' demo_ss)))) ''QmSea'' = Some (IdText 2)
   \<and> ds (snd (Store demo_Env (Inr 2) demo_pic ''QmSea''
             (snd (Store demo_Env (Inr 1) demo_sea ''QmSea'' demo_ss)))) (uuid_String 1) =
       Some (ObjectJSON \<lparr>LensID = 1, Name = ''QmSea'', MetaData = demo_sea\<rparr>)
   \<and> 1 \<in> set (objectIDs (snd (Store demo_Env (Inr 2) demo_pic ''QmSea''
             (snd (Store demo_Env (Inr 1) demo_sea ''QmSea'' demo_ss)))) ''waves'')"
proof -
  let ?s1 = "snd (Store demo_Env (Inr 1) demo_sea ''QmSea'' demo_ss)"
  let ?s2 = "snd (Store demo_Env (Inr 2) demo_pic ''QmSea'' ?s1)"
  let ?r1 = "\<lparr>ContentHash = ''bafy'', resp_LensID = 1\<rparr>"
  let ?r2 = "\<lparr>ContentHash = ''bafy'', resp_LensID = 2\<rparr>"
  have second: "Store demo_Env (Inr 2) demo_pic ''QmSea'' ?s1 = (Inr ?r2, ?s2)"
    using demo_rebind(1) by (simp add: prod_eq_iff)
  have f: "uuid_String (resp_LensID ?r1) \<noteq> ''QmSea''"
      "uuid_String (resp_LensID ?r1) \<notin> set (Summary demo_pic)"
      "ds ?s1 (uuid_String (resp_LensID ?r2)) = None"
    using demo_rebind(2) by (simp_all add: uuid_String_1 demo_pic_def)
  show ?thesis
    using Store_twice_rebinds_name [OF demo_Store_sea second f] demo_rebind(3)
    by simp
qed

section \<open>Reindex\<close>






end
